theory Spec2Isabelle
  imports Complex_Main "HOL-Library.Multiset"
begin

section \<open>TomeRater: data model\<close>

text \<open>
  The embedding follows \<^verbatim>\<open>TomeRater.py\<close>. Python objects that are mutated through
  several references (the \<^verbatim>\<open>Book\<close> instances, which are dictionary keys of every user
  and of the catalog while their \<^verbatim>\<open>ratings\<close> list grows and their \<^verbatim>\<open>isbn\<close> may be
  reset) live in an explicit store: a list of books indexed by address, where
  creating an object appends to the list. A dictionary is a list of entries in
  insertion order. Exceptions are values: every operation returns its outcome
  together with the state it leaves behind, so that what a raising call has already
  mutated stays visible.
\<close>

datatype error = ValueError | TypeError | KeyError | AttributeError

type_synonym 'a result = "error + 'a"

type_synonym addr = nat

datatype variant = Plain | Fiction string | NonFiction string string

record Book =
  title :: string
  isbn :: int
  price :: int
  ratings :: "int list"
  variant :: variant

type_synonym heap = "Book list"

text \<open>A Python value passed where a book is expected: a reference to a \<^verbatim>\<open>Book\<close>
  (or subclass) instance, or anything else.\<close>

datatype pyobj = BookRef addr | NotABook

text \<open>A Python value passed where an \<^verbatim>\<open>int\<close> is expected.\<close>

datatype pyval = IntVal int | NotAnInt

text \<open>
  An entry of a dictionary whose keys are books: a \<^verbatim>\<open>dict\<close> keeps, with the key object
  and the value, the hash the key had when it was inserted. \<^verbatim>\<open>Book.__hash__\<close> is
  \<^verbatim>\<open>hash((self.title, self.isbn))\<close>; the model takes the tuple itself for its hash,
  that is, it takes different tuples to have different hashes.
\<close>

datatype 'v entry = Entry (entry_hash: "string \<times> int") (entry_key: addr) (entry_val: 'v)

record User =
  name :: string
  email :: string
  books :: "int option entry list"

record TomeRater =
  users :: "(string \<times> User) list"
  books :: "int entry list"

section \<open>Dictionaries\<close>

text \<open>
  The \<^verbatim>\<open>users\<close> dictionary has strings for keys, whose hash never changes: a lookup
  is a scan with the equality test. Assigning to a key that is present replaces the
  value and keeps the stored key and its position; a new key goes to the end.
\<close>

fun dict_get :: "('k \<Rightarrow> 'k \<Rightarrow> bool) \<Rightarrow> ('k \<times> 'v) list \<Rightarrow> 'k \<Rightarrow> 'v option" where
  "dict_get eq [] k = None"
| "dict_get eq ((k', v') # d) k = (if eq k' k then Some v' else dict_get eq d k)"

fun dict_contains :: "('k \<Rightarrow> 'k \<Rightarrow> bool) \<Rightarrow> ('k \<times> 'v) list \<Rightarrow> 'k \<Rightarrow> bool" where
  "dict_contains eq [] k = False"
| "dict_contains eq ((k', v') # d) k = (if eq k' k then True else dict_contains eq d k)"

fun dict_set :: "('k \<Rightarrow> 'k \<Rightarrow> bool) \<Rightarrow> ('k \<times> 'v) list \<Rightarrow> 'k \<Rightarrow> 'v \<Rightarrow> ('k \<times> 'v) list" where
  "dict_set eq [] k v = [(k, v)]"
| "dict_set eq ((k', v') # d) k v =
     (if eq k' k then (k', v) # d else (k', v') # dict_set eq d k v)"

section \<open>Regular expressions\<close>

text \<open>
  \<^verbatim>\<open>re.match\<close> decides whether a pattern matches at the start of a string. The
  pattern of \<^verbatim>\<open>check_email_is_valid\<close> has no back-references or look-around, so the
  answer of Python's backtracking matcher is membership in the pattern's language;
  the model decides it with derivatives. A character class is the list of its
  items as the pattern writes them. No flag is passed: letters match themselves only.
\<close>

datatype item = Single char | Range char char

fun in_item :: "char \<Rightarrow> item \<Rightarrow> bool" where
  "in_item c (Single d) = (c = d)"
| "in_item c (Range lo hi) =
     ((of_char lo :: nat) \<le> of_char c \<and> (of_char c :: nat) \<le> of_char hi)"

definition in_class :: "char \<Rightarrow> item list \<Rightarrow> bool" where
  "in_class c cls = list_ex (in_item c) cls"

datatype rexp = Zero | One | Atom "item list" | Alt rexp rexp | Seq rexp rexp | Star rexp

text \<open>\<^verbatim>\<open>r+\<close> and \<^verbatim>\<open>r{m,n}\<close>.\<close>

definition Plus :: "rexp \<Rightarrow> rexp" where
  "Plus r = Seq r (Star r)"

fun Repeat :: "rexp \<Rightarrow> nat \<Rightarrow> nat \<Rightarrow> rexp" where
  "Repeat r 0 0 = One"
| "Repeat r 0 (Suc n) = Alt (Seq r (Repeat r 0 n)) One"
| "Repeat r (Suc m) 0 = Zero"
| "Repeat r (Suc m) (Suc n) = Seq r (Repeat r m n)"

fun nullable :: "rexp \<Rightarrow> bool" where
  "nullable Zero = False"
| "nullable One = True"
| "nullable (Atom cls) = False"
| "nullable (Alt r s) = (nullable r \<or> nullable s)"
| "nullable (Seq r s) = (nullable r \<and> nullable s)"
| "nullable (Star r) = True"

fun deriv :: "char \<Rightarrow> rexp \<Rightarrow> rexp" where
  "deriv c Zero = Zero"
| "deriv c One = Zero"
| "deriv c (Atom cls) = (if in_class c cls then One else Zero)"
| "deriv c (Alt r s) = Alt (deriv c r) (deriv c s)"
| "deriv c (Seq r s) =
     (if nullable r then Alt (Seq (deriv c r) s) (deriv c s) else Seq (deriv c r) s)"
| "deriv c (Star r) = Seq (deriv c r) (Star r)"

fun matches :: "rexp \<Rightarrow> string \<Rightarrow> bool" where
  "matches r [] = nullable r"
| "matches r (c # cs) = matches (deriv c r) cs"

text \<open>
  A pattern \<^verbatim>\<open>^body$\<close> under \<^verbatim>\<open>re.match\<close>: without \<^verbatim>\<open>re.MULTILINE\<close>, \<^verbatim>\<open>$\<close> holds
  at the end of the string and also just before a newline that ends the string.
\<close>

definition re_match_anchored :: "rexp \<Rightarrow> string \<Rightarrow> bool" where
  "re_match_anchored body s =
     (matches body s \<or> (s \<noteq> [] \<and> last s = CHR 0x0A \<and> matches body (butlast s)))"

text \<open>
  The pattern
  \<^verbatim>\<open>^[_a-z0-9-]+(\.[_a-z0-9-]+)*@[a-z0-9-]+(\.[a-z0-9-]+)*(\.[a-z]{2,4})$\<close>.
\<close>

definition local_class :: "item list" where
  "local_class =
     [Single CHR ''_'', Range CHR ''a'' CHR ''z'', Range CHR ''0'' CHR ''9'', Single CHR ''-'']"

definition domain_class :: "item list" where
  "domain_class = [Range CHR ''a'' CHR ''z'', Range CHR ''0'' CHR ''9'', Single CHR ''-'']"

definition alpha_class :: "item list" where
  "alpha_class = [Range CHR ''a'' CHR ''z'']"

definition email_pattern :: rexp where
  "email_pattern =
     Seq (Plus (Atom local_class))
    (Seq (Star (Seq (Atom [Single CHR ''.'']) (Plus (Atom local_class))))
    (Seq (Atom [Single CHR ''@''])
    (Seq (Plus (Atom domain_class))
    (Seq (Star (Seq (Atom [Single CHR ''.'']) (Plus (Atom domain_class))))
         (Seq (Atom [Single CHR ''.'']) (Repeat (Atom alpha_class) 2 4))))))"

text \<open>\<^verbatim>\<open>User.check_email_is_valid\<close>: the match object or \<^verbatim>\<open>None\<close>, read as a truth value.\<close>

definition check_email_is_valid :: "string \<Rightarrow> bool" where
  "check_email_is_valid address = re_match_anchored email_pattern address"

section \<open>Book\<close>

text \<open>\<^verbatim>\<open>Book.__eq__\<close>, on two references into the store.\<close>

definition book_eq :: "heap \<Rightarrow> addr \<Rightarrow> addr \<Rightarrow> bool" where
  "book_eq h a b = (title (h ! a) = title (h ! b) \<and> isbn (h ! a) = isbn (h ! b))"

text \<open>\<^verbatim>\<open>Book.__hash__\<close>, from the fields the object has now.\<close>

definition book_hash :: "heap \<Rightarrow> addr \<Rightarrow> string \<times> int" where
  "book_hash h b = (title (h ! b), isbn (h ! b))"

text \<open>
  A lookup of the key \<^verbatim>\<open>k\<close> computes the hash of \<^verbatim>\<open>k\<close> and visits the entries stored
  under that hash, oldest first; an entry is the one looked for when its key is the
  object \<^verbatim>\<open>k\<close> itself or compares equal to it. An entry whose key has changed its
  title or isbn since it was inserted is still stored under the old hash.
\<close>

definition entry_matches :: "heap \<Rightarrow> 'v entry \<Rightarrow> addr \<Rightarrow> bool" where
  "entry_matches h en k =
     (entry_hash en = book_hash h k \<and>
      (entry_key en = k \<or> book_eq h (entry_key en) k))"

fun book_dict_get :: "heap \<Rightarrow> 'v entry list \<Rightarrow> addr \<Rightarrow> 'v option" where
  "book_dict_get h [] k = None"
| "book_dict_get h (en # d) k =
     (if entry_matches h en k then Some (entry_val en) else book_dict_get h d k)"

fun book_dict_contains :: "heap \<Rightarrow> 'v entry list \<Rightarrow> addr \<Rightarrow> bool" where
  "book_dict_contains h [] k = False"
| "book_dict_contains h (en # d) k =
     (if entry_matches h en k then True else book_dict_contains h d k)"

fun book_dict_set :: "heap \<Rightarrow> 'v entry list \<Rightarrow> addr \<Rightarrow> 'v \<Rightarrow> 'v entry list" where
  "book_dict_set h [] k v = [Entry (book_hash h k) k v]"
| "book_dict_set h (en # d) k v =
     (if entry_matches h en k then Entry (entry_hash en) (entry_key en) v # d
      else en # book_dict_set h d k v)"

text \<open>\<^verbatim>\<open>d.keys()\<close> and \<^verbatim>\<open>d.items()\<close>.\<close>

definition book_dict_keys :: "'v entry list \<Rightarrow> addr list" where
  "book_dict_keys d = map entry_key d"

definition book_dict_items :: "'v entry list \<Rightarrow> (addr \<times> 'v) list" where
  "book_dict_items d = map (\<lambda>en. (entry_key en, entry_val en)) d"

text \<open>\<^verbatim>\<open>Book.set_isbn\<close>: \<^verbatim>\<open>type(new_isbn) is int\<close>, else \<^verbatim>\<open>TypeError\<close>.\<close>

definition set_isbn :: "heap \<Rightarrow> addr \<Rightarrow> pyval \<Rightarrow> unit result \<times> heap" where
  "set_isbn h b new_isbn =
     (case new_isbn of
        IntVal i \<Rightarrow> (Inr (), h[b := (h ! b)\<lparr>isbn := i\<rparr>])
      | NotAnInt \<Rightarrow> (Inl TypeError, h))"

text \<open>\<^verbatim>\<open>Book.__init__\<close>: the new object, before it is put in the store.\<close>

definition new_Book :: "string \<Rightarrow> int \<Rightarrow> int \<Rightarrow> Book" where
  "new_Book t i p = \<lparr>title = t, isbn = i, price = p, ratings = [], variant = Plain\<rparr>"

definition new_Fiction :: "string \<Rightarrow> string \<Rightarrow> int \<Rightarrow> int \<Rightarrow> Book" where
  "new_Fiction t a i p = \<lparr>title = t, isbn = i, price = p, ratings = [], variant = Fiction a\<rparr>"

definition new_NonFiction :: "string \<Rightarrow> string \<Rightarrow> string \<Rightarrow> int \<Rightarrow> int \<Rightarrow> Book" where
  "new_NonFiction t s l i p =
     \<lparr>title = t, isbn = i, price = p, ratings = [], variant = NonFiction s l\<rparr>"

definition alloc :: "heap \<Rightarrow> Book \<Rightarrow> addr \<times> heap" where
  "alloc h b = (length h, h @ [b])"

text \<open>
  \<^verbatim>\<open>check_rating_is_valid\<close>: \<^verbatim>\<open>rating not in range(0, 5)\<close> raises. A rating is an
  \<^verbatim>\<open>int\<close> or \<^verbatim>\<open>None\<close>, as the docstrings type it; \<^verbatim>\<open>None\<close> is not in a range.
\<close>

definition check_rating_is_valid :: "int option \<Rightarrow> unit result" where
  "check_rating_is_valid rating =
     (case rating of
        None \<Rightarrow> Inl ValueError
      | Some r \<Rightarrow> if 0 \<le> r \<and> r < 5 then Inr () else Inl ValueError)"

text \<open>
  \<^verbatim>\<open>add_rating\<close> appends a rating that passed the check. \<^verbatim>\<open>None\<close> never passes it, so
  the branch for \<^verbatim>\<open>None\<close> after a passed check is never taken.
\<close>

definition add_rating :: "heap \<Rightarrow> addr \<Rightarrow> int option \<Rightarrow> unit result \<times> heap" where
  "add_rating h b rating =
     (case check_rating_is_valid rating of
        Inl e \<Rightarrow> (Inl e, h)
      | Inr _ \<Rightarrow>
          (case rating of
             None \<Rightarrow> (Inl TypeError, h)
           | Some r \<Rightarrow> (Inr (), h[b := (h ! b)\<lparr>ratings := ratings (h ! b) @ [r]\<rparr>])))"

text \<open>
  \<^verbatim>\<open>average_rating\<close>: \<^verbatim>\<open>sum(ratings) / len(ratings)\<close>, or 0 for no ratings. Python's
  true division of two ints is the correctly rounded quotient; the model keeps the
  exact quotient as a rational.
\<close>

definition average_rating :: "Book \<Rightarrow> rat" where
  "average_rating b =
     (if length (ratings b) \<noteq> 0 then of_int (sum_list (ratings b)) / of_nat (length (ratings b))
      else 0)"

section \<open>User\<close>

definition new_User :: "string \<Rightarrow> string \<Rightarrow> User" where
  "new_User n e = \<lparr>name = n, email = e, books = []\<rparr>"

text \<open>Python truthiness of a rating: \<^verbatim>\<open>None\<close> and \<^verbatim>\<open>0\<close> are false.\<close>

definition truthy :: "int option \<Rightarrow> bool" where
  "truthy rating = (case rating of None \<Rightarrow> False | Some r \<Rightarrow> r \<noteq> 0)"

text \<open>
  \<^verbatim>\<open>User.read_book\<close>. The \<^verbatim>\<open>ValueError\<close> of the validity check is swallowed when
  the rating is \<^verbatim>\<open>None\<close> and re-raised otherwise, before anything is written.
\<close>

definition read_book :: "heap \<Rightarrow> User \<Rightarrow> pyobj \<Rightarrow> int option \<Rightarrow> unit result \<times> heap \<times> User" where
  "read_book h u book rating =
     (case book of
        NotABook \<Rightarrow> (Inl TypeError, h, u)
      | BookRef b \<Rightarrow>
          (case (case check_rating_is_valid rating of
                   Inl e \<Rightarrow> if rating \<noteq> None then Inl e else Inr ()
                 | Inr _ \<Rightarrow> Inr ()) of
             Inl e \<Rightarrow> (Inl e, h, u)
           | Inr _ \<Rightarrow>
               (let u' = u\<lparr>User.books := book_dict_set h (User.books u) b rating\<rparr>
                in if truthy rating
                   then (case add_rating h b rating of (r, h') \<Rightarrow> (r, h', u'))
                   else (Inr (), h, u'))))"

text \<open>
  \<^verbatim>\<open>get_average_rating\<close>: the loop over \<^verbatim>\<open>self.books.items()\<close> carries
  \<^verbatim>\<open>(nb_of_ratings, sum_ratings)\<close> and skips the entries rated \<^verbatim>\<open>None\<close>.
\<close>

fun rating_totals :: "(addr \<times> int option) list \<Rightarrow> nat \<times> int \<Rightarrow> nat \<times> int" where
  "rating_totals [] acc = acc"
| "rating_totals ((b, None) # d) acc = rating_totals d acc"
| "rating_totals ((b, Some r) # d) (nb, s) = rating_totals d (nb + 1, s + r)"

definition get_average_rating :: "User \<Rightarrow> rat" where
  "get_average_rating u =
     (case rating_totals (book_dict_items (User.books u)) (0, 0) of
        (nb_of_ratings, sum_ratings) \<Rightarrow>
          if nb_of_ratings = 0 then 0 else of_int sum_ratings / of_nat nb_of_ratings)"

definition get_books_collection :: "User \<Rightarrow> addr list" where
  "get_books_collection u = book_dict_keys (User.books u)"

section \<open>TomeRater\<close>

text \<open>
  The engine holds its \<^verbatim>\<open>User\<close> objects in the \<^verbatim>\<open>users\<close> dictionary; the model keeps
  them there by value and writes a user back after a method has changed it.
\<close>

definition new_TomeRater :: TomeRater where
  "new_TomeRater = \<lparr>users = [], books = []\<rparr>"

definition catalog_generator :: "TomeRater \<Rightarrow> addr list" where
  "catalog_generator t = book_dict_keys (TomeRater.books t)"

fun isbn_scan :: "heap \<Rightarrow> addr list \<Rightarrow> int \<Rightarrow> bool" where
  "isbn_scan h [] i = False"
| "isbn_scan h (book # catalog) i = (if isbn (h ! book) = i then True else isbn_scan h catalog i)"

definition check_isbn_in_catalog :: "heap \<Rightarrow> TomeRater \<Rightarrow> int \<Rightarrow> bool" where
  "check_isbn_in_catalog h t i = isbn_scan h (catalog_generator t) i"

definition check_book_in_catalog :: "heap \<Rightarrow> TomeRater \<Rightarrow> pyobj \<Rightarrow> bool result" where
  "check_book_in_catalog h t book =
     (case book of
        NotABook \<Rightarrow> Inl TypeError
      | BookRef b \<Rightarrow> Inr (book_dict_contains h (TomeRater.books t) b))"

text \<open>
  The three constructors return the new object, or \<^verbatim>\<open>None\<close> without creating one
  when the isbn is found. They assign nothing in the engine, so only the store
  is returned.
\<close>

definition create_book :: "heap \<Rightarrow> TomeRater \<Rightarrow> string \<Rightarrow> int \<Rightarrow> int \<Rightarrow> addr option \<times> heap" where
  "create_book h t ttl i p =
     (if \<not> check_isbn_in_catalog h t i
      then (case alloc h (new_Book ttl i p) of (a, h') \<Rightarrow> (Some a, h'))
      else (None, h))"

definition create_novel ::
  "heap \<Rightarrow> TomeRater \<Rightarrow> string \<Rightarrow> string \<Rightarrow> int \<Rightarrow> int \<Rightarrow> addr option \<times> heap" where
  "create_novel h t ttl author i p =
     (if \<not> check_isbn_in_catalog h t i
      then (case alloc h (new_Fiction ttl author i p) of (a, h') \<Rightarrow> (Some a, h'))
      else (None, h))"

definition create_non_fiction ::
  "heap \<Rightarrow> TomeRater \<Rightarrow> string \<Rightarrow> string \<Rightarrow> string \<Rightarrow> int \<Rightarrow> int \<Rightarrow> addr option \<times> heap" where
  "create_non_fiction h t ttl subject level i p =
     (if \<not> check_isbn_in_catalog h t i
      then (case alloc h (new_NonFiction ttl subject level i p) of (a, h') \<Rightarrow> (Some a, h'))
      else (None, h))"

definition is_existing_user :: "TomeRater \<Rightarrow> string \<Rightarrow> bool result" where
  "is_existing_user t e =
     (if \<not> check_email_is_valid e then Inl ValueError
      else Inr (dict_contains (=) (users t) e))"

text \<open>
  \<^verbatim>\<open>add_book_to_user\<close>. \<^verbatim>\<open>self.users.get(email)\<close> gives \<^verbatim>\<open>None\<close> for a missing key,
  on which the method call would raise \<^verbatim>\<open>AttributeError\<close>; \<^verbatim>\<open>self.books[book] += 1\<close>
  reads the entry and writes it back.
\<close>

definition add_book_to_user ::
  "heap \<Rightarrow> TomeRater \<Rightarrow> pyobj \<Rightarrow> string \<Rightarrow> int option \<Rightarrow> unit result \<times> heap \<times> TomeRater" where
  "add_book_to_user h t book e rating =
     (case is_existing_user t e of
        Inl err \<Rightarrow> (Inl err, h, t)
      | Inr False \<Rightarrow> (Inr (), h, t)
      | Inr True \<Rightarrow>
          (case dict_get (=) (users t) e of
             None \<Rightarrow> (Inl AttributeError, h, t)
           | Some user \<Rightarrow>
               (case read_book h user book rating of
                  (Inl err, h', user') \<Rightarrow>
                    (Inl err, h', t\<lparr>users := dict_set (=) (users t) e user'\<rparr>)
                | (Inr _, h', user') \<Rightarrow>
                    (let t' = t\<lparr>users := dict_set (=) (users t) e user'\<rparr>
                     in case check_book_in_catalog h' t' book of
                          Inl err \<Rightarrow> (Inl err, h', t')
                        | Inr True \<Rightarrow>
                            (case book of
                               NotABook \<Rightarrow> (Inl TypeError, h', t')
                             | BookRef b \<Rightarrow>
                                 (case book_dict_get h' (TomeRater.books t') b of
                                    None \<Rightarrow> (Inl KeyError, h', t')
                                  | Some c \<Rightarrow>
                                      (Inr (), h', t'\<lparr>TomeRater.books :=
                                         book_dict_set h' (TomeRater.books t') b (c + 1)\<rparr>)))
                        | Inr False \<Rightarrow>
                            (case book of
                               NotABook \<Rightarrow> (Inl TypeError, h', t')
                             | BookRef b \<Rightarrow>
                                 (Inr (), h', t'\<lparr>TomeRater.books :=
                                    book_dict_set h' (TomeRater.books t') b 1\<rparr>))))))"

text \<open>The loop of \<^verbatim>\<open>add_user\<close> over \<^verbatim>\<open>user_books\<close>; a non-book is reported and skipped.\<close>

fun add_user_books ::
  "heap \<Rightarrow> TomeRater \<Rightarrow> string \<Rightarrow> pyobj list \<Rightarrow> unit result \<times> heap \<times> TomeRater" where
  "add_user_books h t e [] = (Inr (), h, t)"
| "add_user_books h t e (NotABook # rest) = add_user_books h t e rest"
| "add_user_books h t e (BookRef b # rest) =
     (case add_book_to_user h t (BookRef b) e None of
        (Inl err, h', t') \<Rightarrow> (Inl err, h', t')
      | (Inr _, h', t') \<Rightarrow> add_user_books h' t' e rest)"

text \<open>\<^verbatim>\<open>user_books\<close> is a list or not (\<^verbatim>\<open>type(user_books) is list\<close>).\<close>

definition add_user ::
  "heap \<Rightarrow> TomeRater \<Rightarrow> string \<Rightarrow> string \<Rightarrow> pyobj list option \<Rightarrow> unit result \<times> heap \<times> TomeRater" where
  "add_user h t n e user_books =
     (if \<not> check_email_is_valid e then (Inl ValueError, h, t)
      else
        (case is_existing_user t e of
           Inl err \<Rightarrow> (Inl err, h, t)
         | Inr True \<Rightarrow> (Inr (), h, t)
         | Inr False \<Rightarrow>
             (let t' = t\<lparr>users := dict_set (=) (users t) e (new_User n e)\<rparr>
              in case user_books of
                   None \<Rightarrow> (Inr (), h, t')
                 | Some bs \<Rightarrow> add_user_books h t' e bs)))"

text \<open>
  \<^verbatim>\<open>most_read_book\<close>: \<^verbatim>\<open>max\<close> raises \<^verbatim>\<open>ValueError\<close> on an empty iterable and keeps
  the first of several maximal elements; its key function reads \<^verbatim>\<open>self.books[k]\<close>.
\<close>

fun max_loop :: "(addr \<Rightarrow> int option) \<Rightarrow> addr \<Rightarrow> int \<Rightarrow> addr list \<Rightarrow> addr result" where
  "max_loop key m mv [] = Inr m"
| "max_loop key m mv (k # ks) =
     (case key k of
        None \<Rightarrow> Inl KeyError
      | Some v \<Rightarrow> if v > mv then max_loop key k v ks else max_loop key m mv ks)"

definition most_read_book :: "heap \<Rightarrow> TomeRater \<Rightarrow> addr result" where
  "most_read_book h t =
     (case book_dict_keys (TomeRater.books t) of
        [] \<Rightarrow> Inl ValueError
      | k # ks \<Rightarrow>
          (case book_dict_get h (TomeRater.books t) k of
             None \<Rightarrow> Inl KeyError
           | Some v \<Rightarrow> max_loop (book_dict_get h (TomeRater.books t)) k v ks))"

text \<open>
  \<^verbatim>\<open>highest_rated_book\<close> creates the reference book and replaces it by every
  catalog book with a strictly greater average.
\<close>

fun highest_loop :: "heap \<Rightarrow> addr \<Rightarrow> addr list \<Rightarrow> addr" where
  "highest_loop h best [] = best"
| "highest_loop h best (book # rest) =
     (if average_rating (h ! book) > average_rating (h ! best)
      then highest_loop h book rest else highest_loop h best rest)"

definition reference_book :: Book where
  "reference_book = new_Book ''reference_book'' 1000002 0"

definition highest_rated_book :: "heap \<Rightarrow> TomeRater \<Rightarrow> addr \<times> heap" where
  "highest_rated_book h t =
     (case alloc h reference_book of
        (ref, h') \<Rightarrow> (highest_loop h' ref (book_dict_keys (TomeRater.books t)), h'))"

fun positive_loop :: "User \<Rightarrow> User list \<Rightarrow> User" where
  "positive_loop best [] = best"
| "positive_loop best (user # rest) =
     (if get_average_rating user > get_average_rating best
      then positive_loop user rest else positive_loop best rest)"

definition most_positive_user :: "TomeRater \<Rightarrow> User" where
  "most_positive_user t =
     positive_loop (new_User ''reference_user'' ''mail@domain.com'') (map snd (users t))"

text \<open>
  \<^verbatim>\<open>xs[:n]\<close>: a negative \<^verbatim>\<open>n\<close> counts from the end. \<^verbatim>\<open>list.sort(key=f, reverse=True)\<close>
  is stable: CPython reverses the list, sorts it stably in ascending order and
  reverses the result.
\<close>

definition slice_to :: "'a list \<Rightarrow> int \<Rightarrow> 'a list" where
  "slice_to xs n = (if 0 \<le> n then take (nat n) xs else take (nat (int (length xs) + n)) xs)"

definition sort_reverse :: "('a \<Rightarrow> int) \<Rightarrow> 'a list \<Rightarrow> 'a list" where
  "sort_reverse key xs = rev (sort_key key (rev xs))"

definition get_n_most_read_books :: "TomeRater \<Rightarrow> int \<Rightarrow> (addr \<times> int) list" where
  "get_n_most_read_books t n =
     slice_to (sort_reverse snd (book_dict_items (TomeRater.books t))) n"

section \<open>The language of a pattern\<close>

definition conc :: "string set \<Rightarrow> string set \<Rightarrow> string set" where
  "conc A B = {u @ v | u v. u \<in> A \<and> v \<in> B}"

inductive_set star :: "string set \<Rightarrow> string set" for A :: "string set" where
  star_nil: "[] \<in> star A"
| star_app: "u \<in> A \<Longrightarrow> v \<in> star A \<Longrightarrow> u @ v \<in> star A"

fun lang :: "rexp \<Rightarrow> string set" where
  "lang Zero = {}"
| "lang One = {[]}"
| "lang (Atom cls) = {[c] | c. in_class c cls}"
| "lang (Alt r s) = lang r \<union> lang s"
| "lang (Seq r s) = conc (lang r) (lang s)"
| "lang (Star r) = star (lang r)"

text \<open>The strings of a dotted part and of an address, read off the pattern's classes.\<close>

definition class_segment :: "item list \<Rightarrow> string \<Rightarrow> bool" where
  "class_segment cls w = (w \<noteq> [] \<and> list_all (\<lambda>c. in_class c cls) w)"

definition class_dotted :: "item list \<Rightarrow> string \<Rightarrow> bool" where
  "class_dotted cls w =
     (\<exists>seg segs. class_segment cls seg \<and> list_all (class_segment cls) segs \<and>
        w = seg @ concat (map (\<lambda>x. CHR ''.'' # x) segs))"

definition class_email :: "string \<Rightarrow> bool" where
  "class_email s =
     (\<exists>l d t. s = l @ ''@'' @ d @ ''.'' @ t \<and>
        class_dotted local_class l \<and> class_dotted domain_class d \<and>
        2 \<le> length t \<and> length t \<le> 4 \<and> list_all (\<lambda>c. in_class c alpha_class) t)"

section \<open>The address format of the specification\<close>

text \<open>
  The address format in the specification's words, with every allowed character
  written out: segments of allowed characters separated by single dots; a dotted
  local part over lower-case letters, digits, underscore and hyphen, \<^verbatim>\<open>@\<close>, a
  dotted domain over lower-case letters, digits and hyphen, a dot and a last
  segment of two to four lower-case letters.
\<close>

definition lower_letters :: string where
  "lower_letters = ''abcdefghijklmnopqrstuvwxyz''"

definition upper_letters :: string where
  "upper_letters = ''ABCDEFGHIJKLMNOPQRSTUVWXYZ''"

definition digits :: string where
  "digits = ''0123456789''"

definition spec_segment :: "string \<Rightarrow> string \<Rightarrow> bool" where
  "spec_segment allowed w = (w \<noteq> [] \<and> list_all (\<lambda>c. c \<in> set allowed) w)"

definition spec_dotted :: "string \<Rightarrow> string \<Rightarrow> bool" where
  "spec_dotted allowed w =
     (\<exists>seg segs. spec_segment allowed seg \<and> list_all (spec_segment allowed) segs \<and>
        w = seg @ concat (map (\<lambda>x. CHR ''.'' # x) segs))"

definition spec_email :: "string \<Rightarrow> bool" where
  "spec_email s =
     (\<exists>l d t. s = l @ ''@'' @ d @ ''.'' @ t \<and>
        spec_dotted (lower_letters @ digits @ ''_-'') l \<and>
        spec_dotted (lower_letters @ digits @ ''-'') d \<and>
        2 \<le> length t \<and> length t \<le> 4 \<and> list_all (\<lambda>c. c \<in> set lower_letters) t)"

definition is_upper :: "char \<Rightarrow> bool" where
  "is_upper c = (c \<in> set upper_letters)"

section \<open>Book dictionaries\<close>

lemma entry_matches_new: "entry_matches h (Entry (book_hash h k) k v) k"
  by (simp add: entry_matches_def)

lemma entry_matches_value:
  "entry_matches h (Entry (entry_hash en) (entry_key en) v) k = entry_matches h en k"
  by (simp add: entry_matches_def)

lemma book_dict_get_set: "book_dict_get h (book_dict_set h d k v) k = Some v"
  by (induction d) (simp_all add: entry_matches_new entry_matches_value)

lemma book_dict_contains_get: "book_dict_contains h d k \<longleftrightarrow> book_dict_get h d k \<noteq> None"
  by (induction d) simp_all

lemma book_dict_set_length:
  "book_dict_contains h d k \<Longrightarrow> length (book_dict_set h d k v) = length d"
  by (induction d) (auto split: if_splits)

section \<open>Reading a book\<close>

lemma rating_totals_eq:
  "rating_totals (book_dict_items d) (nb, s) =
     (nb + length (filter (\<lambda>en. entry_val en \<noteq> None) d),
      s + sum_list (map (\<lambda>en. case entry_val en of None \<Rightarrow> 0 | Some x \<Rightarrow> x) d))"
proof (induction d arbitrary: nb s)
  case Nil
  show ?case by (simp add: book_dict_items_def)
next
  case (Cons en d)
  have items: "book_dict_items (en # d) = (entry_key en, entry_val en) # book_dict_items d"
    by (simp add: book_dict_items_def)
  show ?case
  proof (cases "entry_val en")
    case None
    then show ?thesis by (simp add: items Cons)
  next
    case (Some x)
    then show ?thesis by (simp add: items Cons)
  qed
qed

lemma rated_set_zero_rated:
  "book_dict_get h d b = Some (Some r) \<Longrightarrow>
     length (filter (\<lambda>en. entry_val en \<noteq> None) (book_dict_set h d b (Some 0))) =
       length (filter (\<lambda>en. entry_val en \<noteq> None) d) \<and>
     sum_list (map (\<lambda>en. case entry_val en of None \<Rightarrow> 0 | Some x \<Rightarrow> x)
                 (book_dict_set h d b (Some (0::int)))) =
       sum_list (map (\<lambda>en. case entry_val en of None \<Rightarrow> 0 | Some x \<Rightarrow> x) d) - r"
  by (induction d) (auto split: if_splits)

lemma rated_entry_exists:
  "book_dict_get h d b = Some (Some r) \<Longrightarrow> 0 < length (filter (\<lambda>en. entry_val en \<noteq> None) d)"
  by (induction d) (auto split: if_splits)

lemma rated_set_zero_unrated:
  "book_dict_get h d b = None \<or> book_dict_get h d b = Some None \<Longrightarrow>
     length (filter (\<lambda>en. entry_val en \<noteq> None) (book_dict_set h d b (Some 0))) =
       length (filter (\<lambda>en. entry_val en \<noteq> None) d) + 1 \<and>
     sum_list (map (\<lambda>en. case entry_val en of None \<Rightarrow> 0 | Some x \<Rightarrow> x)
                 (book_dict_set h d b (Some (0::int)))) =
       sum_list (map (\<lambda>en. case entry_val en of None \<Rightarrow> 0 | Some x \<Rightarrow> x) d)"
  by (induction d) (auto split: if_splits)

lemma rating_totals_set_zero:
  "rating_totals (book_dict_items (book_dict_set h d b (Some 0))) (0, 0) =
     (case book_dict_get h d b of
        Some (Some r) \<Rightarrow>
          (fst (rating_totals (book_dict_items d) (0, 0)),
           snd (rating_totals (book_dict_items d) (0, 0)) - r)
      | _ \<Rightarrow>
          (fst (rating_totals (book_dict_items d) (0, 0)) + 1,
           snd (rating_totals (book_dict_items d) (0, 0))))"
proof (cases "book_dict_get h d b")
  case None
  then show ?thesis
    using rated_set_zero_unrated [of h d b] by (simp add: rating_totals_eq)
next
  case (Some v)
  show ?thesis
  proof (cases v)
    case None
    with Some show ?thesis
      using rated_set_zero_unrated [of h d b] by (simp add: rating_totals_eq)
  next
    case (Some r)
    with \<open>book_dict_get h d b = Some v\<close> show ?thesis
      using rated_set_zero_rated [of h d b r] by (simp add: rating_totals_eq)
  qed
qed

lemma rated_entry_counted:
  "book_dict_get h d b = Some (Some r) \<Longrightarrow> 0 < fst (rating_totals (book_dict_items d) (0, 0))"
  using rated_entry_exists [of h d b r] by (simp add: rating_totals_eq)

text \<open>
  Claim C1. A rating that is an integer outside 0..4 makes \<^verbatim>\<open>read_book\<close> raise the
  \<^verbatim>\<open>ValueError\<close> of the validity check before anything is written: the store and
  the user come back as they were, so the book is not recorded in the user's
  dictionary and the book's ratings are unchanged.
\<close>

theorem read_book_invalid_rating_raises:
  "r < 0 \<or> 4 < r \<Longrightarrow>
     read_book h u (BookRef b) (Some r) = (Inl ValueError, h, u) \<and>
     User.books (snd (snd (read_book h u (BookRef b) (Some r)))) = User.books u \<and>
     ratings (fst (snd (read_book h u (BookRef b) (Some r))) ! b) = ratings (h ! b)"
  by (auto simp: read_book_def check_rating_is_valid_def)

theorem read_book_invalid_rating_raises_witness:
  "((5::int) < 0 \<or> (4::int) < 5) \<and>
   read_book [new_Book ''Dune'' 1001 20] (new_User ''Alice'' ''alice@example.com'') (BookRef 0) (Some 5)
     = (Inl ValueError, [new_Book ''Dune'' 1001 20], new_User ''Alice'' ''alice@example.com'')"
  using read_book_invalid_rating_raises
    [of 5 "[new_Book ''Dune'' 1001 20]" "new_User ''Alice'' ''alice@example.com''" 0]
  by simp

text \<open>
  Claim C4. \<^verbatim>\<open>read_book\<close> with rating 0 succeeds, stores \<^verbatim>\<open>b \<mapsto> 0\<close> in the user's
  dictionary and leaves the store, hence the ratings of \<^verbatim>\<open>b\<close>, unchanged: 0 is never
  passed to \<^verbatim>\<open>add_rating\<close>. The 0 counts in the user's average rating: with \<^verbatim>\<open>nb\<close>
  rated entries of sum \<^verbatim>\<open>s\<close> before the call, \<^verbatim>\<open>get_average_rating\<close> is afterwards
  \<^verbatim>\<open>s / (nb + 1)\<close>, or \<^verbatim>\<open>(s - r) / nb\<close> when the lookup of \<^verbatim>\<open>b\<close> found a rating \<^verbatim>\<open>r\<close>, which
  the 0 replaces.
\<close>

theorem read_book_zero_rating:
  "read_book h u (BookRef b) (Some 0) =
     (Inr (), h, u\<lparr>User.books := book_dict_set h (User.books u) b (Some 0)\<rparr>) \<and>
   book_dict_get h (User.books (snd (snd (read_book h u (BookRef b) (Some 0))))) b = Some (Some 0) \<and>
   ratings (fst (snd (read_book h u (BookRef b) (Some 0))) ! b) = ratings (h ! b) \<and>
   rating_totals (book_dict_items (User.books (snd (snd (read_book h u (BookRef b) (Some 0)))))) (0, 0) =
     (case book_dict_get h (User.books u) b of
        Some (Some r) \<Rightarrow>
          (fst (rating_totals (book_dict_items (User.books u)) (0, 0)),
           snd (rating_totals (book_dict_items (User.books u)) (0, 0)) - r)
      | _ \<Rightarrow>
          (fst (rating_totals (book_dict_items (User.books u)) (0, 0)) + 1,
           snd (rating_totals (book_dict_items (User.books u)) (0, 0)))) \<and>
   get_average_rating (snd (snd (read_book h u (BookRef b) (Some 0)))) =
     (case book_dict_get h (User.books u) b of
        Some (Some r) \<Rightarrow>
          of_int (snd (rating_totals (book_dict_items (User.books u)) (0, 0)) - r) /
          of_nat (fst (rating_totals (book_dict_items (User.books u)) (0, 0)))
      | _ \<Rightarrow>
          of_int (snd (rating_totals (book_dict_items (User.books u)) (0, 0))) /
          of_nat (fst (rating_totals (book_dict_items (User.books u)) (0, 0)) + 1))"
proof -
  let ?u' = "u\<lparr>User.books := book_dict_set h (User.books u) b (Some 0)\<rparr>"
  have rb: "read_book h u (BookRef b) (Some 0) = (Inr (), h, ?u')"
    by (simp add: read_book_def check_rating_is_valid_def truthy_def)
  have tot: "rating_totals (book_dict_items (User.books ?u')) (0, 0) =
     (case book_dict_get h (User.books u) b of
        Some (Some r) \<Rightarrow>
          (fst (rating_totals (book_dict_items (User.books u)) (0, 0)),
           snd (rating_totals (book_dict_items (User.books u)) (0, 0)) - r)
      | _ \<Rightarrow>
          (fst (rating_totals (book_dict_items (User.books u)) (0, 0)) + 1,
           snd (rating_totals (book_dict_items (User.books u)) (0, 0))))"
    by (simp add: rating_totals_set_zero)
  have avg: "get_average_rating ?u' =
     (case book_dict_get h (User.books u) b of
        Some (Some r) \<Rightarrow>
          of_int (snd (rating_totals (book_dict_items (User.books u)) (0, 0)) - r) /
          of_nat (fst (rating_totals (book_dict_items (User.books u)) (0, 0)))
      | _ \<Rightarrow>
          of_int (snd (rating_totals (book_dict_items (User.books u)) (0, 0))) /
          of_nat (fst (rating_totals (book_dict_items (User.books u)) (0, 0)) + 1))"
  proof (cases "book_dict_get h (User.books u) b")
    case None
    then show ?thesis unfolding get_average_rating_def tot by simp
  next
    case (Some v)
    show ?thesis
    proof (cases v)
      case None
      with Some show ?thesis unfolding get_average_rating_def tot by simp
    next
      case (Some r)
      with \<open>book_dict_get h (User.books u) b = Some v\<close>
      have g: "book_dict_get h (User.books u) b = Some (Some r)" by simp
      from rated_entry_counted [OF g] g show ?thesis
        unfolding get_average_rating_def tot by simp
    qed
  qed
  show ?thesis
    unfolding rb using tot avg by (simp add: book_dict_get_set)
qed

theorem read_book_zero_rating_witness:
  "get_average_rating
     (snd (snd (read_book [new_Book ''Dune'' 1001 20, new_Book ''Emma'' 1002 10]
        \<lparr>name = ''Alice'', email = ''a@b.co'', books = [Entry (''Dune'', 1001) 0 (Some 4)]\<rparr>
        (BookRef 1) (Some 0)))) = 2 \<and>
   get_average_rating
     \<lparr>name = ''Alice'', email = ''a@b.co'', books = [Entry (''Dune'', 1001) 0 (Some 4)]\<rparr> = 4"
  using read_book_zero_rating [of "[new_Book ''Dune'' 1001 20, new_Book ''Emma'' 1002 10]"
      "\<lparr>name = ''Alice'', email = ''a@b.co'', books = [Entry (''Dune'', 1001) 0 (Some 4)]\<rparr>" 1]
  by (simp add: get_average_rating_def book_dict_items_def entry_matches_def book_hash_def
      new_Book_def)

section \<open>Creating books\<close>

lemma isbn_scan_iff: "isbn_scan h bs i \<longleftrightarrow> (\<exists>b\<in>set bs. isbn (h ! b) = i)"
  by (induction bs) auto

text \<open>
  Claim C5. When some catalog book has isbn \<^verbatim>\<open>i\<close>, each of \<^verbatim>\<open>create_book\<close>,
  \<^verbatim>\<open>create_novel\<close> and \<^verbatim>\<open>create_non_fiction\<close> called with isbn \<^verbatim>\<open>i\<close> returns \<^verbatim>\<open>None\<close>
  and creates no object, whatever title is asked for: the scan compares the isbn
  alone. The catalog is not written by these methods.
\<close>

theorem create_with_existing_isbn:
  "\<exists>b\<in>set (catalog_generator t). isbn (h ! b) = i \<Longrightarrow>
     create_book h t ttl i p = (None, h) \<and>
     create_novel h t ttl author i p = (None, h) \<and>
     create_non_fiction h t ttl subject level i p = (None, h)"
  by (simp add: create_book_def create_novel_def create_non_fiction_def
      check_isbn_in_catalog_def isbn_scan_iff)

theorem create_with_existing_isbn_witness:
  "catalog_generator \<lparr>users = [], books = [Entry (''Dune'', 1001) 0 1]\<rparr> = [0] \<and>
   isbn ([new_Book ''Dune'' 1001 20] ! 0) = 1001 \<and>
   create_book [new_Book ''Dune'' 1001 20] \<lparr>users = [], books = [Entry (''Dune'', 1001) 0 1]\<rparr>
       ''Emma'' 1001 5
     = (None, [new_Book ''Dune'' 1001 20])"
proof -
  have h: "\<exists>b\<in>set (catalog_generator \<lparr>users = [], books = [Entry (''Dune'', 1001) 0 1]\<rparr>).
      isbn ([new_Book ''Dune'' 1001 20] ! b) = 1001"
    by (simp add: catalog_generator_def book_dict_keys_def new_Book_def)
  show ?thesis
    using create_with_existing_isbn [OF h, of "''Emma''" 5]
    by (simp add: catalog_generator_def book_dict_keys_def new_Book_def)
qed

section \<open>Analytics\<close>

text \<open>
  Claim C9. On an empty catalog \<^verbatim>\<open>most_read_book\<close> raises (the \<^verbatim>\<open>ValueError\<close> of
  \<^verbatim>\<open>max\<close> on an empty iterable), whereas \<^verbatim>\<open>highest_rated_book\<close> returns the newly
  created reference book, of average rating 0, and \<^verbatim>\<open>most_positive_user\<close> returns
  the reference user when there is no user.
\<close>

theorem most_read_book_empty_raises:
  "TomeRater.books t = [] \<Longrightarrow>
     most_read_book h t = Inl ValueError \<and>
     highest_rated_book h t = (length h, h @ [reference_book]) \<and>
     average_rating (snd (highest_rated_book h t) ! fst (highest_rated_book h t)) = 0 \<and>
     (users t = [] \<longrightarrow> most_positive_user t = new_User ''reference_user'' ''mail@domain.com'')"
  by (simp add: most_read_book_def highest_rated_book_def alloc_def most_positive_user_def
      average_rating_def reference_book_def new_Book_def book_dict_keys_def)

theorem most_read_book_empty_raises_witness:
  "TomeRater.books new_TomeRater = [] \<and> most_read_book [] new_TomeRater = Inl ValueError \<and>
   highest_rated_book [] new_TomeRater = (0, [reference_book]) \<and>
   most_positive_user new_TomeRater = new_User ''reference_user'' ''mail@domain.com''"
proof -
  have b: "TomeRater.books new_TomeRater = []" and u: "users new_TomeRater = []"
    by (simp_all add: new_TomeRater_def)
  show ?thesis
    using b u most_read_book_empty_raises [OF b, of "[]"] by simp
qed

lemma sort_reverse_sorted: "sorted_wrt (\<lambda>p q. f q \<le> f p) (sort_reverse f xs)"
proof -
  have "sorted (map f (sort_key f (rev xs)))" by (rule sorted_sort_key)
  then have "sorted_wrt (\<lambda>p q. f p \<le> f q) (sort_key f (rev xs))"
    by (simp add: sorted_map)
  then show ?thesis
    by (simp add: sort_reverse_def sorted_wrt_rev)
qed

lemma sort_reverse_stable:
  "filter (\<lambda>p. f p = c) (sort_reverse f xs) = filter (\<lambda>p. f p = c) xs"
proof -
  have "filter (\<lambda>p. f p = c) (sort_reverse f xs) =
        rev (filter (\<lambda>p. f p = c) (sort_key f (rev xs)))"
    by (simp add: sort_reverse_def rev_filter)
  also have "\<dots> = rev (filter (\<lambda>p. f p = c) (rev xs))"
    by (simp only: sort_key_stable)
  also have "\<dots> = filter (\<lambda>p. f p = c) xs"
    by (simp add: rev_filter)
  finally show ?thesis .
qed

lemma sort_reverse_mset: "mset (sort_reverse f xs) = mset xs"
  by (simp add: sort_reverse_def)

text \<open>
  Claim C8 as stated fails for a negative \<^verbatim>\<open>n\<close>: the slice \<^verbatim>\<open>book_list[:-1]\<close> drops the
  last pair, so a catalog of three books yields two pairs for \<^verbatim>\<open>n = -1\<close>, which is
  not \<^verbatim>\<open>min(n, catalog size)\<close>.
\<close>

theorem n_most_read_books_count_counterexample:
  "int (length (get_n_most_read_books
      \<lparr>users = [], books = [Entry (''A'', 1) 0 1, Entry (''B'', 2) 1 1, Entry (''C'', 3) 2 1]\<rparr> (- 1))) \<noteq>
     min (- 1) (int (length (TomeRater.books
      \<lparr>users = [], books = [Entry (''A'', 1) 0 1, Entry (''B'', 2) 1 1, Entry (''C'', 3) 2 1]\<rparr>))) \<and>
   get_n_most_read_books
      \<lparr>users = [], books = [Entry (''A'', 1) 0 1, Entry (''B'', 2) 1 1, Entry (''C'', 3) 2 1]\<rparr> (- 1) =
     [(0, 1), (1, 1)]"
  by (simp add: get_n_most_read_books_def slice_to_def sort_reverse_def book_dict_items_def)

text \<open>
  Claim C8, amended. For every \<^verbatim>\<open>n \<ge> 0\<close>, \<^verbatim>\<open>get_n_most_read_books\<close> returns the first
  \<^verbatim>\<open>n\<close> pairs of the catalog sorted by read count in descending order, that is
  \<^verbatim>\<open>min(n, catalog size)\<close> pairs; the sorted list is a permutation of the catalog's
  pairs in which the pairs of each count keep their catalog order.
\<close>

theorem n_most_read_books_sorted_stable:
  "0 \<le> n \<Longrightarrow>
     get_n_most_read_books t n =
       take (nat n) (sort_reverse snd (book_dict_items (TomeRater.books t))) \<and>
     length (get_n_most_read_books t n) = min (nat n) (length (TomeRater.books t)) \<and>
     sorted_wrt (\<lambda>p q. snd q \<le> snd p) (get_n_most_read_books t n) \<and>
     mset (sort_reverse snd (book_dict_items (TomeRater.books t))) =
       mset (book_dict_items (TomeRater.books t)) \<and>
     filter (\<lambda>p. snd p = c) (sort_reverse snd (book_dict_items (TomeRater.books t))) =
       filter (\<lambda>p. snd p = c) (book_dict_items (TomeRater.books t))"
proof -
  let ?items = "book_dict_items (TomeRater.books t)"
  assume n: "0 \<le> n"
  then have g: "get_n_most_read_books t n = take (nat n) (sort_reverse snd ?items)"
    by (simp add: get_n_most_read_books_def slice_to_def)
  have len: "length (sort_reverse snd ?items) = length (TomeRater.books t)"
    by (simp add: sort_reverse_def book_dict_items_def)
  have srt: "sorted_wrt (\<lambda>p q. snd q \<le> snd p) (take (nat n) (sort_reverse snd ?items))"
    using sort_reverse_sorted [of snd ?items] by (rule sorted_wrt_take)
  show ?thesis
    unfolding g using len srt
    by (simp add: sort_reverse_mset sort_reverse_stable min.commute)
qed

theorem n_most_read_books_sorted_stable_witness:
  "(0::int) \<le> 1 \<and>
   get_n_most_read_books
     \<lparr>users = [], books = [Entry (''A'', 1) 0 1, Entry (''B'', 2) 1 2, Entry (''C'', 3) 2 2]\<rparr> 1 =
     [(1, 2)]"
proof -
  have h: "(0::int) \<le> 1" by simp
  show ?thesis
    using n_most_read_books_sorted_stable [OF h,
        of "\<lparr>users = [], books = [Entry (''A'', 1) 0 1, Entry (''B'', 2) 1 2, Entry (''C'', 3) 2 2]\<rparr>"]
    by (simp add: sort_reverse_def book_dict_items_def)
qed

section \<open>The email pattern\<close>

text \<open>The derivative matcher decides membership in the language of the pattern.\<close>

lemma nullable_lang: "nullable r \<longleftrightarrow> [] \<in> lang r"
  by (induction r) (auto simp: conc_def intro: star.star_nil)

lemma conc_cons:
  "c # w \<in> conc A B \<longleftrightarrow> (\<exists>u v. w = u @ v \<and> c # u \<in> A \<and> v \<in> B) \<or> ([] \<in> A \<and> c # w \<in> B)"
  unfolding conc_def
  by (auto simp: append_eq_Cons_conv Cons_eq_append_conv)

lemma star_cons_split:
  assumes "x \<in> star A" and "x = c # w"
  shows "\<exists>u v. w = u @ v \<and> c # u \<in> A \<and> v \<in> star A"
  using assms
proof (induction arbitrary: w rule: star.induct)
  case star_nil
  then show ?case by simp
next
  case (star_app u v)
  show ?case
  proof (cases u)
    case Nil
    with star_app show ?thesis by simp
  next
    case (Cons d u')
    with star_app.prems have "d = c" and "w = u' @ v" by simp_all
    with Cons star_app.hyps show ?thesis by blast
  qed
qed

lemma star_cons:
  "c # w \<in> star A \<longleftrightarrow> (\<exists>u v. w = u @ v \<and> c # u \<in> A \<and> v \<in> star A)"
proof
  assume "c # w \<in> star A"
  then show "\<exists>u v. w = u @ v \<and> c # u \<in> A \<and> v \<in> star A"
    by (rule star_cons_split) simp
next
  assume "\<exists>u v. w = u @ v \<and> c # u \<in> A \<and> v \<in> star A"
  then obtain u v where "w = u @ v" "c # u \<in> A" "v \<in> star A" by blast
  then show "c # w \<in> star A"
    using star.star_app [of "c # u" A v] by simp
qed

lemma lang_deriv: "w \<in> lang (deriv c r) \<longleftrightarrow> c # w \<in> lang r"
proof (induction r arbitrary: w)
  case (Seq r s)
  then show ?case
    by (auto simp: conc_cons nullable_lang) (auto simp: conc_def)
next
  case (Star r)
  then show ?case
    by (auto simp: star_cons conc_def)
qed auto

lemma matches_lang: "matches r s \<longleftrightarrow> s \<in> lang r"
  by (induction s arbitrary: r) (simp_all add: nullable_lang lang_deriv)

lemma conc_iff: "s \<in> conc A B \<longleftrightarrow> (\<exists>u v. s = u @ v \<and> u \<in> A \<and> v \<in> B)"
  unfolding conc_def by blast

lemma star_Atom: "w \<in> star (lang (Atom cls)) \<longleftrightarrow> list_all (\<lambda>c. in_class c cls) w"
proof (induction w)
  case Nil
  show ?case by (simp add: star.star_nil)
next
  case (Cons c w)
  then show ?case by (auto simp: star_cons)
qed

lemma lang_Plus_Atom: "w \<in> lang (Plus (Atom cls)) \<longleftrightarrow> class_segment cls w"
proof (cases w)
  case Nil
  then show ?thesis by (simp add: Plus_def conc_def class_segment_def)
next
  case (Cons c v)
  then show ?thesis
    using star_Atom [of v cls] by (auto simp: Plus_def conc_cons class_segment_def)
qed

lemma star_concat_of:
  "w \<in> star A \<Longrightarrow> \<exists>ws. list_all (\<lambda>x. x \<in> A) ws \<and> w = concat ws"
proof (induction rule: star.induct)
  case star_nil
  have "list_all (\<lambda>x. x \<in> A) [] \<and> [] = concat ([] :: string list)" by simp
  then show ?case by blast
next
  case (star_app u v)
  then obtain ws where "list_all (\<lambda>x. x \<in> A) ws" "v = concat ws" by blast
  with star_app.hyps have "list_all (\<lambda>x. x \<in> A) (u # ws) \<and> u @ v = concat (u # ws)" by simp
  then show ?case by blast
qed

lemma concat_in_star: "list_all (\<lambda>x. x \<in> A) ws \<Longrightarrow> concat ws \<in> star A"
  by (induction ws) (auto intro: star.intros)

lemma dot_segment_lang:
  "x \<in> lang (Seq (Atom [Single CHR ''.'']) (Plus (Atom cls))) \<longleftrightarrow>
     (\<exists>seg. class_segment cls seg \<and> x = CHR ''.'' # seg)"
proof -
  have "x \<in> lang (Seq (Atom [Single CHR ''.'']) (Plus (Atom cls))) \<longleftrightarrow>
        (\<exists>seg. seg \<in> lang (Plus (Atom cls)) \<and> x = CHR ''.'' # seg)"
    by (auto simp: conc_def in_class_def)
  then show ?thesis by (simp add: lang_Plus_Atom)
qed

lemma dot_segments_of:
  "list_all (\<lambda>x. \<exists>seg. class_segment cls seg \<and> x = CHR ''.'' # seg) ws \<Longrightarrow>
     \<exists>segs. list_all (class_segment cls) segs \<and> ws = map (\<lambda>x. CHR ''.'' # x) segs"
proof (induction ws)
  case Nil
  then show ?case by simp
next
  case (Cons x ws)
  then obtain seg segs where "class_segment cls seg" "x = CHR ''.'' # seg"
    "list_all (class_segment cls) segs" "ws = map (\<lambda>x. CHR ''.'' # x) segs" by auto
  then have "list_all (class_segment cls) (seg # segs) \<and> x # ws = map (\<lambda>x. CHR ''.'' # x) (seg # segs)"
    by simp
  then show ?case by (rule exI)
qed

lemma lang_dot_segments:
  "w \<in> lang (Star (Seq (Atom [Single CHR ''.'']) (Plus (Atom cls)))) \<longleftrightarrow>
     (\<exists>segs. list_all (class_segment cls) segs \<and> w = concat (map (\<lambda>x. CHR ''.'' # x) segs))"
  (is "?L \<longleftrightarrow> ?R")
proof
  let ?D = "lang (Seq (Atom [Single CHR ''.'']) (Plus (Atom cls)))"
  assume ?L
  then have "w \<in> star ?D" by simp
  then obtain ws where ws: "list_all (\<lambda>x. x \<in> ?D) ws" "w = concat ws"
    using star_concat_of by blast
  from ws(1) have "list_all (\<lambda>x. \<exists>seg. class_segment cls seg \<and> x = CHR ''.'' # seg) ws"
    by (simp only: dot_segment_lang)
  then obtain segs where "list_all (class_segment cls) segs" "ws = map (\<lambda>x. CHR ''.'' # x) segs"
    using dot_segments_of by blast
  with ws(2) show ?R by blast
next
  let ?D = "lang (Seq (Atom [Single CHR ''.'']) (Plus (Atom cls)))"
  assume ?R
  then obtain segs where segs: "list_all (class_segment cls) segs"
    "w = concat (map (\<lambda>x. CHR ''.'' # x) segs)" by blast
  have "x \<in> ?D" if "class_segment cls seg" "x = CHR ''.'' # seg" for x seg
    using that dot_segment_lang [of x cls] by blast
  with segs(1) have "list_all (\<lambda>x. x \<in> ?D) (map (\<lambda>x. CHR ''.'' # x) segs)"
    by (induction segs) simp_all
  then have "concat (map (\<lambda>x. CHR ''.'' # x) segs) \<in> star ?D"
    by (rule concat_in_star)
  with segs(2) show ?L by simp
qed

lemma lang_dotted:
  "w \<in> conc (lang (Plus (Atom cls))) (lang (Star (Seq (Atom [Single CHR ''.'']) (Plus (Atom cls)))))
     \<longleftrightarrow> class_dotted cls w"
proof -
  let ?S = "lang (Star (Seq (Atom [Single CHR ''.'']) (Plus (Atom cls))))"
  have "w \<in> conc (lang (Plus (Atom cls))) ?S \<longleftrightarrow>
      (\<exists>u v. w = u @ v \<and> u \<in> lang (Plus (Atom cls)) \<and> v \<in> ?S)"
    by (rule conc_iff)
  also have "\<dots> \<longleftrightarrow> (\<exists>u v. w = u @ v \<and> class_segment cls u \<and>
      (\<exists>segs. list_all (class_segment cls) segs \<and> v = concat (map (\<lambda>x. CHR ''.'' # x) segs)))"
    by (simp only: lang_Plus_Atom lang_dot_segments)
  also have "\<dots> \<longleftrightarrow> class_dotted cls w"
    unfolding class_dotted_def by blast
  finally show ?thesis .
qed

lemma lang_Repeat_0:
  "w \<in> lang (Repeat (Atom cls) 0 n) \<longleftrightarrow> length w \<le> n \<and> list_all (\<lambda>c. in_class c cls) w"
proof (induction n arbitrary: w)
  case 0
  show ?case by auto
next
  case (Suc n)
  show ?case
  proof (cases w)
    case Nil
    then show ?thesis by simp
  next
    case (Cons c v)
    then show ?thesis using Suc [of v] by (auto simp: conc_cons)
  qed
qed

lemma lang_Repeat:
  "w \<in> lang (Repeat (Atom cls) m n) \<longleftrightarrow>
     m \<le> length w \<and> length w \<le> n \<and> list_all (\<lambda>c. in_class c cls) w"
proof (induction m arbitrary: n w)
  case 0
  show ?case by (simp add: lang_Repeat_0)
next
  case (Suc m)
  show ?case
  proof (cases n)
    case 0
    then show ?thesis by auto
  next
    case n: (Suc n')
    show ?thesis
    proof (cases w)
      case Nil
      then show ?thesis by (simp add: n conc_def)
    next
      case (Cons c v)
      then show ?thesis using Suc [of v n'] by (auto simp: n conc_cons)
    qed
  qed
qed

lemma concI: "u \<in> A \<Longrightarrow> v \<in> B \<Longrightarrow> u @ v \<in> conc A B"
  unfolding conc_def by blast

lemma concE:
  assumes "s \<in> conc A B"
  obtains u v where "s = u @ v" "u \<in> A" "v \<in> B"
  using assms unfolding conc_def by blast

lemma conc_assoc: "conc A (conc B C) = conc (conc A B) C"
proof (rule set_eqI)
  fix s
  show "s \<in> conc A (conc B C) \<longleftrightarrow> s \<in> conc (conc A B) C"
  proof
    assume "s \<in> conc A (conc B C)"
    then obtain u r where 1: "s = u @ r" "u \<in> A" "r \<in> conc B C" by (rule concE)
    from 1(3) obtain v w where 2: "r = v @ w" "v \<in> B" "w \<in> C" by (rule concE)
    have "(u @ v) @ w \<in> conc (conc A B) C"
      using 1(2) 2(2) 2(3) by (intro concI)
    then show "s \<in> conc (conc A B) C" using 1(1) 2(1) by simp
  next
    assume "s \<in> conc (conc A B) C"
    then obtain r w where 1: "s = r @ w" "r \<in> conc A B" "w \<in> C" by (rule concE)
    from 1(2) obtain u v where 2: "r = u @ v" "u \<in> A" "v \<in> B" by (rule concE)
    have "u @ (v @ w) \<in> conc A (conc B C)"
      using 2(2) 2(3) 1(3) by (intro concI)
    then show "s \<in> conc A (conc B C)" using 1(1) 2(1) by simp
  qed
qed

lemma conc_five:
  "s \<in> conc A (conc {x} (conc B (conc {y} C))) \<longleftrightarrow>
     (\<exists>l d t. s = l @ x @ d @ y @ t \<and> l \<in> A \<and> d \<in> B \<and> t \<in> C)"
  (is "?L \<longleftrightarrow> ?R")
proof
  assume ?L
  then obtain l r where 1: "s = l @ r" "l \<in> A" "r \<in> conc {x} (conc B (conc {y} C))"
    by (rule concE)
  from 1(3) obtain x' r1 where 2: "r = x' @ r1" "x' \<in> {x}" "r1 \<in> conc B (conc {y} C)"
    by (rule concE)
  from 2(3) obtain d r2 where 3: "r1 = d @ r2" "d \<in> B" "r2 \<in> conc {y} C"
    by (rule concE)
  from 3(3) obtain y' t where 4: "r2 = y' @ t" "y' \<in> {y}" "t \<in> C"
    by (rule concE)
  have "s = l @ x @ d @ y @ t \<and> l \<in> A \<and> d \<in> B \<and> t \<in> C"
    using 1 2 3 4 by simp
  then show ?R by (intro exI)
next
  assume ?R
  then obtain l d t where s: "s = l @ x @ d @ y @ t" and m: "l \<in> A" "d \<in> B" "t \<in> C"
    by blast
  have "x \<in> {x}" "y \<in> {y}" by simp_all
  then have "l @ x @ d @ y @ t \<in> conc A (conc {x} (conc B (conc {y} C)))"
    using m by (intro concI)
  with s show ?L by simp
qed

lemma lang_email_pattern: "s \<in> lang email_pattern \<longleftrightarrow> class_email s"
proof -
  let ?dot = "Atom [Single CHR ''.'']"
  let ?P = "lang (Plus (Atom local_class))"
  let ?S = "lang (Star (Seq ?dot (Plus (Atom local_class))))"
  let ?P' = "lang (Plus (Atom domain_class))"
  let ?S' = "lang (Star (Seq ?dot (Plus (Atom domain_class))))"
  let ?T = "lang (Repeat (Atom alpha_class) 2 4)"
  have at: "lang (Atom [Single CHR ''@'']) = {''@''}"
    and dot: "lang ?dot = {''.''}"
    by (auto simp: in_class_def)
  have "lang email_pattern =
      conc ?P (conc ?S (conc (lang (Atom [Single CHR ''@''])) (conc ?P' (conc ?S' (conc (lang ?dot) ?T)))))"
    by (simp only: email_pattern_def lang.simps(5))
  also have "\<dots> = conc (conc ?P ?S) (conc {''@''} (conc (conc ?P' ?S') (conc {''.''} ?T)))"
    by (simp only: at dot conc_assoc [of ?P ?S] conc_assoc [of ?P' ?S'])
  finally have "s \<in> lang email_pattern \<longleftrightarrow>
      (\<exists>l d t. s = l @ ''@'' @ d @ ''.'' @ t \<and> l \<in> conc ?P ?S \<and> d \<in> conc ?P' ?S' \<and> t \<in> ?T)"
    by (simp only: conc_five)
  then show ?thesis
    by (simp only: class_email_def lang_dotted lang_Repeat)
qed


lemmas rx_eval = check_email_is_valid_def re_match_anchored_def email_pattern_def Plus_def
  local_class_def domain_class_def alpha_class_def in_class_def eval_nat_numeral

lemma valid_ab: "check_email_is_valid ''a@b.co''"
  by (simp add: rx_eval)

lemma invalid_upper: "\<not> check_email_is_valid ''A@b.co''"
  by (simp add: rx_eval)

lemma invalid_plain: "\<not> check_email_is_valid ''not-an-email''"
  by (simp add: rx_eval)

lemma anchored_newline:
  "re_match_anchored body s \<longleftrightarrow>
     matches body s \<or> (\<exists>w. s = w @ [CHR 0x0A] \<and> matches body w)"
proof -
  have "(s \<noteq> [] \<and> last s = CHR 0x0A \<and> matches body (butlast s)) \<longleftrightarrow>
        (\<exists>w. s = w @ [CHR 0x0A] \<and> matches body w)"
  proof
    assume a: "s \<noteq> [] \<and> last s = CHR 0x0A \<and> matches body (butlast s)"
    then have "s = butlast s @ [CHR 0x0A]"
      using append_butlast_last_id [of s] by simp
    with a show "\<exists>w. s = w @ [CHR 0x0A] \<and> matches body w" by blast
  next
    assume "\<exists>w. s = w @ [CHR 0x0A] \<and> matches body w"
    then show "s \<noteq> [] \<and> last s = CHR 0x0A \<and> matches body (butlast s)" by auto
  qed
  then show ?thesis by (simp only: re_match_anchored_def)
qed

text \<open>The classes of the pattern hold the characters the specification allows.\<close>

lemma char_in_codes:
  assumes "(of_char c :: nat) \<in> of_char ` set cs"
  shows "c \<in> set cs"
proof -
  from assms obtain d where "d \<in> set cs" "(of_char c :: nat) = of_char d" by blast
  then show ?thesis by simp
qed

lemma range_lower: "in_item c (Range CHR ''a'' CHR ''z'') \<longleftrightarrow> c \<in> set lower_letters"
proof
  assume "in_item c (Range CHR ''a'' CHR ''z'')"
  then have b: "(97::nat) \<le> of_char c" "of_char c \<le> (122::nat)" by simp_all
  have "(of_char c :: nat) \<in> of_char ` set lower_letters"
    unfolding lower_letters_def using b by simp arith
  then show "c \<in> set lower_letters" by (rule char_in_codes)
next
  assume "c \<in> set lower_letters"
  then show "in_item c (Range CHR ''a'' CHR ''z'')"
    by (auto simp: lower_letters_def)
qed

lemma range_digit: "in_item c (Range CHR ''0'' CHR ''9'') \<longleftrightarrow> c \<in> set digits"
proof
  assume "in_item c (Range CHR ''0'' CHR ''9'')"
  then have b: "(48::nat) \<le> of_char c" "of_char c \<le> (57::nat)" by simp_all
  have "(of_char c :: nat) \<in> of_char ` set digits"
    unfolding digits_def using b by simp arith
  then show "c \<in> set digits" by (rule char_in_codes)
next
  assume "c \<in> set digits"
  then show "in_item c (Range CHR ''0'' CHR ''9'')"
    by (auto simp: digits_def)
qed

lemma local_class_chars: "in_class c local_class \<longleftrightarrow> c \<in> set (lower_letters @ digits @ ''_-'')"
proof -
  have "in_class c local_class \<longleftrightarrow>
      c = CHR ''_'' \<or> in_item c (Range CHR ''a'' CHR ''z'') \<or>
      in_item c (Range CHR ''0'' CHR ''9'') \<or> c = CHR ''-''"
    by (simp only: in_class_def local_class_def list_ex_Cons_iff list_ex_Nil_iff in_item.simps(1)
        simp_thms)
  also have "\<dots> \<longleftrightarrow> c \<in> set (lower_letters @ digits @ ''_-'')"
    unfolding range_lower range_digit by auto
  finally show ?thesis .
qed

lemma domain_class_chars: "in_class c domain_class \<longleftrightarrow> c \<in> set (lower_letters @ digits @ ''-'')"
proof -
  have "in_class c domain_class \<longleftrightarrow>
      in_item c (Range CHR ''a'' CHR ''z'') \<or> in_item c (Range CHR ''0'' CHR ''9'') \<or> c = CHR ''-''"
    by (simp only: in_class_def domain_class_def list_ex_Cons_iff list_ex_Nil_iff in_item.simps(1)
        simp_thms)
  also have "\<dots> \<longleftrightarrow> c \<in> set (lower_letters @ digits @ ''-'')"
    unfolding range_lower range_digit by auto
  finally show ?thesis .
qed

lemma alpha_class_chars: "in_class c alpha_class \<longleftrightarrow> c \<in> set lower_letters"
  by (simp only: in_class_def alpha_class_def list_ex_Cons_iff list_ex_Nil_iff range_lower simp_thms)

lemma class_segment_local:
  "class_segment local_class = spec_segment (lower_letters @ digits @ ''_-'')"
  by (intro ext) (simp only: class_segment_def spec_segment_def local_class_chars)

lemma class_segment_domain:
  "class_segment domain_class = spec_segment (lower_letters @ digits @ ''-'')"
  by (intro ext) (simp only: class_segment_def spec_segment_def domain_class_chars)

lemma class_dotted_local:
  "class_dotted local_class = spec_dotted (lower_letters @ digits @ ''_-'')"
  by (intro ext) (simp only: class_dotted_def spec_dotted_def class_segment_local)

lemma class_dotted_domain:
  "class_dotted domain_class = spec_dotted (lower_letters @ digits @ ''-'')"
  by (intro ext) (simp only: class_dotted_def spec_dotted_def class_segment_domain)

lemma class_email_spec: "class_email s \<longleftrightarrow> spec_email s"
  by (simp only: class_email_def spec_email_def class_dotted_local class_dotted_domain
      alpha_class_chars)

lemma check_email_full:
  "check_email_is_valid s \<longleftrightarrow> spec_email s \<or> (\<exists>w. s = w @ [CHR 0x0A] \<and> spec_email w)"
  by (simp only: check_email_is_valid_def anchored_newline matches_lang lang_email_pattern
      class_email_spec)

lemma allowed_not_upper:
  "\<forall>c\<in>set (lower_letters @ digits @ ''_-''). \<not> is_upper c"
  "\<forall>c\<in>set (lower_letters @ digits @ ''-''). \<not> is_upper c"
  "\<forall>c\<in>set lower_letters. \<not> is_upper c"
  by (simp_all add: lower_letters_def digits_def is_upper_def upper_letters_def)

lemma dot_at_newline_not_upper:
  "\<not> is_upper CHR ''.''" "\<not> is_upper CHR ''@''" "\<not> is_upper (CHR 0x0A)"
  by (simp_all add: is_upper_def upper_letters_def)

lemma segment_not_upper:
  "\<forall>c\<in>set allowed. \<not> is_upper c \<Longrightarrow> spec_segment allowed w \<Longrightarrow>
     list_all (\<lambda>c. \<not> is_upper c) w"
  unfolding spec_segment_def list_all_iff by blast

lemma segments_not_upper:
  "\<forall>c\<in>set allowed. \<not> is_upper c \<Longrightarrow> list_all (spec_segment allowed) segs \<Longrightarrow>
     list_all (\<lambda>c. \<not> is_upper c) (concat (map (\<lambda>x. CHR ''.'' # x) segs))"
  by (induction segs) (simp_all add: dot_at_newline_not_upper segment_not_upper)

lemma dotted_not_upper:
  assumes "\<forall>c\<in>set allowed. \<not> is_upper c" and "spec_dotted allowed w"
  shows "list_all (\<lambda>c. \<not> is_upper c) w"
proof -
  from assms(2) obtain seg segs where "spec_segment allowed seg"
    "list_all (spec_segment allowed) segs"
    "w = seg @ concat (map (\<lambda>x. CHR ''.'' # x) segs)"
    unfolding spec_dotted_def by blast
  then show ?thesis
    using segment_not_upper [OF assms(1)] segments_not_upper [OF assms(1)] by simp
qed

lemma spec_email_not_upper:
  assumes "spec_email s"
  shows "list_all (\<lambda>c. \<not> is_upper c) s"
proof -
  from assms obtain l d t where s: "s = l @ ''@'' @ d @ ''.'' @ t"
    and l: "spec_dotted (lower_letters @ digits @ ''_-'') l"
    and d: "spec_dotted (lower_letters @ digits @ ''-'') d"
    and t: "list_all (\<lambda>c. c \<in> set lower_letters) t"
    unfolding spec_email_def by blast
  have "list_all (\<lambda>c. \<not> is_upper c) l"
    using allowed_not_upper(1) l by (rule dotted_not_upper)
  moreover have "list_all (\<lambda>c. \<not> is_upper c) d"
    using allowed_not_upper(2) d by (rule dotted_not_upper)
  moreover have "list_all (\<lambda>c. \<not> is_upper c) t"
    using t allowed_not_upper(3) unfolding list_all_iff by blast
  ultimately show ?thesis
    by (simp add: s dot_at_newline_not_upper)
qed

text \<open>
  Claim C7 as stated fails: the check is case-sensitive. \<^verbatim>\<open>re.match\<close> is called
  without \<^verbatim>\<open>re.IGNORECASE\<close>, so \<^verbatim>\<open>A@b.co\<close> is rejected although \<^verbatim>\<open>a@b.co\<close>, which
  differs from it in letter case only, is accepted.
\<close>

theorem check_email_letter_case_counterexample:
  "check_email_is_valid ''a@b.co'' \<and> \<not> check_email_is_valid ''A@b.co''"
  by (simp only: valid_ab invalid_upper simp_thms)

text \<open>
  Claim C7, amended. On the strings that do not end with a newline, the check
  accepts exactly the addresses of the format: a local part of non-empty segments of
  lower-case letters, digits, underscores and hyphens separated by single dots,
  \<^verbatim>\<open>@\<close>, a domain of non-empty segments of lower-case letters, digits and hyphens
  separated by single dots, a dot and a last segment of 2 to 4 lower-case letters.
  The check is case-sensitive: no accepted string has an upper-case letter.
\<close>

theorem check_email_is_valid_language:
  "(\<not> (s \<noteq> [] \<and> last s = CHR 0x0A) \<longrightarrow> (check_email_is_valid s \<longleftrightarrow> spec_email s)) \<and>
   (check_email_is_valid s \<longrightarrow> list_all (\<lambda>c. \<not> is_upper c) s)"
proof -
  have "check_email_is_valid s \<longleftrightarrow> spec_email s" if "\<not> (s \<noteq> [] \<and> last s = CHR 0x0A)"
  proof -
    have "\<not> (\<exists>w. s = w @ [CHR 0x0A] \<and> spec_email w)" using that by auto
    then show ?thesis by (simp only: check_email_full simp_thms)
  qed
  moreover have "list_all (\<lambda>c. \<not> is_upper c) s" if "check_email_is_valid s"
  proof -
    from that consider "spec_email s" | w where "s = w @ [CHR 0x0A]" "spec_email w"
      unfolding check_email_full by blast
    then show ?thesis
    proof cases
      case 1
      then show ?thesis by (rule spec_email_not_upper)
    next
      case 2
      then show ?thesis
        using spec_email_not_upper [of w] by (simp add: dot_at_newline_not_upper)
    qed
  qed
  ultimately show ?thesis by blast
qed

theorem check_email_is_valid_language_witness:
  "check_email_is_valid ''a@b.co'' \<and> spec_email ''a@b.co'' \<and>
   list_all (\<lambda>c. \<not> is_upper c) ''a@b.co''"
  using check_email_is_valid_language [of "''a@b.co''"] valid_ab by simp

section \<open>Users of the engine\<close>

text \<open>
  Claim C3 as stated fails for an address that is not registered because it is not
  a valid address: \<^verbatim>\<open>is_existing_user\<close> checks the syntax first and raises
  \<^verbatim>\<open>ValueError\<close>, which \<^verbatim>\<open>add_book_to_user\<close> does not catch.
\<close>

theorem add_book_to_user_invalid_email_counterexample:
  "\<not> dict_contains (=) (users new_TomeRater) ''not-an-email'' \<and>
   add_book_to_user [new_Book ''Dune'' 1001 20] new_TomeRater (BookRef 0) ''not-an-email'' None =
     (Inl ValueError, [new_Book ''Dune'' 1001 20], new_TomeRater)"
  by (simp add: new_TomeRater_def add_book_to_user_def is_existing_user_def invalid_plain)

text \<open>
  Claim C3, amended. For an email with no registered user, \<^verbatim>\<open>add_book_to_user\<close>
  leaves the store and the engine unchanged; it returns normally (reporting the
  missing user) when the email is syntactically valid, and raises \<^verbatim>\<open>ValueError\<close>
  when it is not.
\<close>

theorem add_book_to_user_unknown_email:
  "\<not> dict_contains (=) (users t) e \<Longrightarrow>
     add_book_to_user h t book e rating =
       (if check_email_is_valid e then Inr () else Inl ValueError, h, t)"
  by (simp add: add_book_to_user_def is_existing_user_def)

theorem add_book_to_user_unknown_email_witness:
  "\<not> dict_contains (=) (users new_TomeRater) ''a@b.co'' \<and>
   add_book_to_user [new_Book ''Dune'' 1001 20] new_TomeRater (BookRef 0) ''a@b.co'' (Some 4) =
     (Inr (), [new_Book ''Dune'' 1001 20], new_TomeRater)"
proof -
  have h: "\<not> dict_contains (=) (users new_TomeRater) ''a@b.co''"
    by (simp add: new_TomeRater_def)
  show ?thesis
    using h add_book_to_user_unknown_email [OF h, of "[new_Book ''Dune'' 1001 20]" "BookRef 0" "Some 4"]
    by (simp add: valid_ab)
qed

lemma dict_contains_set:
  "dict_contains (=) (dict_set (=) d k v) x \<longleftrightarrow> dict_contains (=) d x \<or> x = k"
  by (induction d) (auto split: if_splits)

lemma add_book_to_user_keeps_users:
  "dict_contains (=) (users t) x \<Longrightarrow>
     dict_contains (=) (users (snd (snd (add_book_to_user h t book e r)))) x"
  by (auto simp: add_book_to_user_def Let_def dict_contains_set
      split: sum.splits bool.splits option.splits prod.splits pyobj.splits)

lemma add_user_books_keeps_users:
  "dict_contains (=) (users t) x \<Longrightarrow>
     dict_contains (=) (users (snd (snd (add_user_books h t e bs)))) x"
proof (induction bs arbitrary: h t)
  case Nil
  then show ?case by simp
next
  case (Cons book rest)
  show ?case
  proof (cases book)
    case NotABook
    with Cons show ?thesis by simp
  next
    case (BookRef b)
    obtain res h' t' where a: "add_book_to_user h t (BookRef b) e None = (res, h', t')"
      by (cases "add_book_to_user h t (BookRef b) e None")
    have k: "dict_contains (=) (users t') x"
      using add_book_to_user_keeps_users [OF Cons.prems, of h "BookRef b" e None] a by simp
    show ?thesis
    proof (cases res)
      case (Inl err)
      with a k BookRef show ?thesis by simp
    next
      case (Inr u)
      with a BookRef Cons.IH [OF k, of h'] show ?thesis by simp
    qed
  qed
qed

lemma add_user_registers:
  assumes "fst (add_user h t n e bks) = Inr ()"
  shows "check_email_is_valid e \<and> dict_contains (=) (users (snd (snd (add_user h t n e bks)))) e"
proof -
  have v: "check_email_is_valid e"
    using assms by (auto simp: add_user_def split: if_splits)
  show ?thesis
  proof (cases "dict_contains (=) (users t) e")
    case True
    with v show ?thesis by (simp add: add_user_def is_existing_user_def)
  next
    case False
    let ?t' = "t\<lparr>users := dict_set (=) (users t) e (new_User n e)\<rparr>"
    have r: "dict_contains (=) (users ?t') e" by (simp add: dict_contains_set)
    show ?thesis
    proof (cases bks)
      case None
      with v False r show ?thesis by (simp add: add_user_def is_existing_user_def)
    next
      case (Some bs)
      with v False add_user_books_keeps_users [OF r, of h e bs] show ?thesis
        by (simp add: add_user_def is_existing_user_def)
    qed
  qed
qed

text \<open>
  Claim C6. When a user is registered under \<^verbatim>\<open>e\<close>, \<^verbatim>\<open>add_user\<close> with email \<^verbatim>\<open>e\<close>
  changes neither the store nor the engine, so the user registered under \<^verbatim>\<open>e\<close> is
  still the one of the first call (the call returns normally, or raises
  \<^verbatim>\<open>ValueError\<close> should the key not be a valid address). In particular, after a
  call of \<^verbatim>\<open>add_user\<close> that returned normally, a second call with the same email
  returns the state of the first call.
\<close>

theorem add_user_existing_email:
  "(dict_contains (=) (users t) e \<longrightarrow>
      add_user h t n e bks = (if check_email_is_valid e then Inr () else Inl ValueError, h, t)) \<and>
   (fst (add_user h t n e bks) = Inr () \<longrightarrow>
      add_user (fst (snd (add_user h t n e bks))) (snd (snd (add_user h t n e bks))) n' e bks' =
        (Inr (), snd (add_user h t n e bks)))"
proof -
  have 1: "add_user h t n e bks = (if check_email_is_valid e then Inr () else Inl ValueError, h, t)"
    if "dict_contains (=) (users t) e" for h t n bks
    using that by (simp add: add_user_def is_existing_user_def)
  have 2: "add_user (fst (snd (add_user h t n e bks))) (snd (snd (add_user h t n e bks))) n' e bks' =
        (Inr (), snd (add_user h t n e bks))"
    if "fst (add_user h t n e bks) = Inr ()"
    using add_user_registers [OF that]
      1 [of "snd (snd (add_user h t n e bks))" "fst (snd (add_user h t n e bks))" n' bks']
    by simp
  from 1 2 show ?thesis by blast
qed

theorem add_user_existing_email_witness:
  "dict_contains (=) (users \<lparr>users = [(''a@b.co'', new_User ''Alice'' ''a@b.co'')], books = []\<rparr>) ''a@b.co'' \<and>
   add_user [] \<lparr>users = [(''a@b.co'', new_User ''Alice'' ''a@b.co'')], books = []\<rparr> ''Bob'' ''a@b.co'' None =
     (Inr (), [], \<lparr>users = [(''a@b.co'', new_User ''Alice'' ''a@b.co'')], books = []\<rparr>) \<and>
   fst (add_user [] new_TomeRater ''Alice'' ''a@b.co'' None) = Inr () \<and>
   add_user [] \<lparr>users = [(''a@b.co'', new_User ''Alice'' ''a@b.co'')], books = []\<rparr> ''Bob'' ''a@b.co'' (Some []) =
     (Inr (), [], \<lparr>users = [(''a@b.co'', new_User ''Alice'' ''a@b.co'')], books = []\<rparr>)"
proof -
  let ?t = "\<lparr>users = [(''a@b.co'', new_User ''Alice'' ''a@b.co'')], books = []\<rparr>"
  have first: "add_user [] new_TomeRater ''Alice'' ''a@b.co'' None = (Inr (), [], ?t)"
    by (simp add: add_user_def is_existing_user_def valid_ab new_TomeRater_def)
  have h: "dict_contains (=) (users ?t) ''a@b.co''" by simp
  show ?thesis
    using h first
      add_user_existing_email [of ?t "''a@b.co''" "[]" "''Bob''" None "''Bob''" None]
      add_user_existing_email [of new_TomeRater "''a@b.co''" "[]" "''Alice''" None "''Bob''" "Some []"]
    by (simp add: valid_ab)
qed

section \<open>The highest rated book\<close>

lemma highest_loop_first_max:
  "(highest_loop h best bs = best \<and>
      (\<forall>b\<in>set bs. average_rating (h ! b) \<le> average_rating (h ! best))) \<or>
   (\<exists>pre post. bs = pre @ highest_loop h best bs # post \<and>
      average_rating (h ! best) < average_rating (h ! highest_loop h best bs) \<and>
      (\<forall>b\<in>set pre. average_rating (h ! b) < average_rating (h ! highest_loop h best bs)) \<and>
      (\<forall>b\<in>set post. average_rating (h ! b) \<le> average_rating (h ! highest_loop h best bs)))"
proof (induction bs arbitrary: best)
  case Nil
  show ?case by simp
next
  case (Cons x bs)
  let ?a = "\<lambda>b. average_rating (h ! b)"
  show ?case
  proof (cases "?a best < ?a x")
    case True
    let ?r = "highest_loop h x bs"
    have r: "highest_loop h best (x # bs) = ?r" using True by simp
    from Cons [of x] consider
      (stay) "?r = x" "\<forall>b\<in>set bs. ?a b \<le> ?a x"
      | (move) pre post where "bs = pre @ ?r # post" "?a x < ?a ?r"
          "\<forall>b\<in>set pre. ?a b < ?a ?r" "\<forall>b\<in>set post. ?a b \<le> ?a ?r"
      by blast
    then show ?thesis
    proof cases
      case stay
      have "x # bs = [] @ ?r # bs \<and> ?a best < ?a ?r \<and>
          (\<forall>b\<in>set []. ?a b < ?a ?r) \<and> (\<forall>b\<in>set bs. ?a b \<le> ?a ?r)"
        using stay True by simp
      then show ?thesis unfolding r by blast
    next
      case move
      have "x # bs = (x # pre) @ ?r # post \<and> ?a best < ?a ?r \<and>
          (\<forall>b\<in>set (x # pre). ?a b < ?a ?r) \<and> (\<forall>b\<in>set post. ?a b \<le> ?a ?r)"
        using move True by auto
      then show ?thesis unfolding r by blast
    qed
  next
    case False
    let ?r = "highest_loop h best bs"
    have r: "highest_loop h best (x # bs) = ?r" using False by simp
    from Cons [of best] consider
      (stay) "?r = best" "\<forall>b\<in>set bs. ?a b \<le> ?a best"
      | (move) pre post where "bs = pre @ ?r # post" "?a best < ?a ?r"
          "\<forall>b\<in>set pre. ?a b < ?a ?r" "\<forall>b\<in>set post. ?a b \<le> ?a ?r"
      by blast
    then show ?thesis
    proof cases
      case stay
      then have "?r = best \<and> (\<forall>b\<in>set (x # bs). ?a b \<le> ?a best)"
        using False by auto
      then show ?thesis unfolding r by blast
    next
      case move
      have "x # bs = (x # pre) @ ?r # post \<and> ?a best < ?a ?r \<and>
          (\<forall>b\<in>set (x # pre). ?a b < ?a ?r) \<and> (\<forall>b\<in>set post. ?a b \<le> ?a ?r)"
        using move False by auto
      then show ?thesis unfolding r by blast
    qed
  qed
qed

lemma average_reference_book: "average_rating reference_book = 0"
  by (simp add: average_rating_def reference_book_def new_Book_def)

lemma unrated_reachable:
  "add_user [new_Book ''Dune'' 1001 20] new_TomeRater ''Alice'' ''a@b.co'' (Some [BookRef 0]) =
     (Inr (), [new_Book ''Dune'' 1001 20],
      \<lparr>users = [(''a@b.co'',
          \<lparr>name = ''Alice'', email = ''a@b.co'', books = [Entry (''Dune'', 1001) 0 None]\<rparr>)],
       books = [Entry (''Dune'', 1001) 0 1]\<rparr>)"
  by (simp add: add_user_def is_existing_user_def valid_ab new_TomeRater_def new_User_def
      add_book_to_user_def read_book_def check_rating_is_valid_def truthy_def
      check_book_in_catalog_def book_hash_def new_Book_def)

text \<open>
  Claim C2 as stated fails on a non-empty catalog in which no book has a positive
  average, as after a user was added with an unrated book: the comparison with the
  reference book is strict, so the reference book is returned, which is no catalog
  entry.
\<close>

theorem highest_rated_book_unrated_counterexample:
  "(case add_user [new_Book ''Dune'' 1001 20] new_TomeRater ''Alice'' ''a@b.co'' (Some [BookRef 0]) of
      (res, h, t) \<Rightarrow>
        res = Inr () \<and> book_dict_items (TomeRater.books t) = [(0, 1)] \<and>
        fst (highest_rated_book h t) = 1 \<and>
        fst (highest_rated_book h t) \<notin> set (book_dict_keys (TomeRater.books t)))"
  unfolding unrated_reachable
  by (simp add: highest_rated_book_def alloc_def average_rating_def new_Book_def reference_book_def
      book_dict_keys_def book_dict_items_def)

text \<open>
  Claim C2, amended. The catalog keys refer to objects of the store. If some catalog
  book has a positive average rating, \<^verbatim>\<open>highest_rated_book\<close> returns the first catalog
  book, in iteration order, whose average rating is maximal: every key before it has
  a smaller average and none after it a greater one. If no catalog book has a
  positive average (an empty catalog, or only unrated or zero-rated books), it
  returns the reference book it has just created, which is not a catalog entry and
  whose average rating is 0.
\<close>

theorem highest_rated_book_first_max:
  assumes "\<forall>b\<in>set (book_dict_keys (TomeRater.books t)). b < length h"
    and "highest_rated_book h t = (r, h')"
  shows "h' = h @ [reference_book] \<and>
    ((\<exists>b\<in>set (book_dict_keys (TomeRater.books t)). 0 < average_rating (h ! b)) \<longrightarrow>
       (\<exists>pre post. book_dict_keys (TomeRater.books t) = pre @ r # post \<and>
          (\<forall>b\<in>set pre. average_rating (h ! b) < average_rating (h ! r)) \<and>
          (\<forall>b\<in>set post. average_rating (h ! b) \<le> average_rating (h ! r)))) \<and>
    ((\<forall>b\<in>set (book_dict_keys (TomeRater.books t)). average_rating (h ! b) \<le> 0) \<longrightarrow>
       r = length h \<and> r \<notin> set (book_dict_keys (TomeRater.books t)) \<and>
       h' ! r = reference_book \<and> average_rating (h' ! r) = 0)"
proof -
  let ?ks = "book_dict_keys (TomeRater.books t)"
  let ?a = "\<lambda>b. average_rating (h ! b)"
  let ?a' = "\<lambda>b. average_rating (h' ! b)"
  have h': "h' = h @ [reference_book]" and r: "r = highest_loop h' (length h) ?ks"
    using assms(2) by (auto simp: highest_rated_book_def alloc_def)
  have old: "?a' b = ?a b" if "b \<in> set ?ks" for b
    using that assms(1) by (auto simp: h' nth_append)
  have ref: "h' ! length h = reference_book" "?a' (length h) = 0"
    by (simp_all add: h' average_reference_book)
  have fresh: "length h \<notin> set ?ks" using assms(1) by auto
  from highest_loop_first_max [of h' "length h" ?ks] consider
    (none) "r = length h" "\<forall>b\<in>set ?ks. ?a' b \<le> 0"
    | (some) pre post where "?ks = pre @ r # post" "0 < ?a' r"
        "\<forall>b\<in>set pre. ?a' b < ?a' r" "\<forall>b\<in>set post. ?a' b \<le> ?a' r"
    unfolding r [symmetric] ref(1) average_reference_book by blast
  then show ?thesis
  proof cases
    case none
    then have "\<forall>b\<in>set ?ks. ?a b \<le> 0" using old by simp
    then have "\<not> (\<exists>b\<in>set ?ks. 0 < ?a b)" by (simp add: not_less)
    then show ?thesis
      using h' none(1) fresh ref by simp
  next
    case some
    have mem: "r \<in> set ?ks" "set pre \<subseteq> set ?ks" "set post \<subseteq> set ?ks"
      using some(1) by (simp_all add: subset_iff) 
    have pos: "0 < ?a r" using some(2) old [OF mem(1)] by simp
    have pre: "\<forall>b\<in>set pre. ?a b < ?a r"
      using some(3) old mem by (metis subsetD)
    have post: "\<forall>b\<in>set post. ?a b \<le> ?a r"
      using some(4) old mem by (metis subsetD)
    have "\<not> (\<forall>b\<in>set ?ks. ?a b \<le> 0)" using pos mem(1) by (auto simp: not_le)
    moreover have "\<exists>pre post. ?ks = pre @ r # post \<and>
          (\<forall>b\<in>set pre. ?a b < ?a r) \<and> (\<forall>b\<in>set post. ?a b \<le> ?a r)"
      using some(1) pre post by blast
    ultimately show ?thesis using h' by blast
  qed
qed

theorem highest_rated_book_first_max_witness:
  "highest_rated_book
       [new_Book ''Dune'' 1001 20\<lparr>ratings := [4]\<rparr>, new_Book ''Emma'' 1002 10\<lparr>ratings := [4]\<rparr>]
       \<lparr>users = [], books = [Entry (''Dune'', 1001) 0 1, Entry (''Emma'', 1002) 1 2]\<rparr> =
     (0, [new_Book ''Dune'' 1001 20\<lparr>ratings := [4]\<rparr>, new_Book ''Emma'' 1002 10\<lparr>ratings := [4]\<rparr>] @
          [reference_book]) \<and>
   0 < average_rating (new_Book ''Dune'' 1001 20\<lparr>ratings := [4]\<rparr>) \<and>
   book_dict_keys
     (TomeRater.books \<lparr>users = [], books = [Entry (''Dune'', 1001) 0 1, Entry (''Emma'', 1002) 1 2]\<rparr>) =
     [] @ 0 # [1]"
proof -
  let ?h = "[new_Book ''Dune'' 1001 20\<lparr>ratings := [4]\<rparr>, new_Book ''Emma'' 1002 10\<lparr>ratings := [4]\<rparr>]"
  let ?t = "\<lparr>users = [], books = [Entry (''Dune'', 1001) 0 1, Entry (''Emma'', 1002) 1 2]\<rparr>"
  have wf: "\<forall>b\<in>set (book_dict_keys (TomeRater.books ?t)). b < length ?h"
    by (simp add: book_dict_keys_def)
  have run: "highest_rated_book ?h ?t = (0, ?h @ [reference_book])"
    by (simp add: highest_rated_book_def alloc_def average_rating_def new_Book_def reference_book_def
        book_dict_keys_def)
  have pos: "0 < average_rating (new_Book ''Dune'' 1001 20\<lparr>ratings := [4]\<rparr>)"
    by (simp add: average_rating_def new_Book_def)
  show ?thesis
    using run pos highest_rated_book_first_max [OF wf run] by (simp add: book_dict_keys_def)
qed

section \<open>Reading a book again\<close>

lemma store_update_ratings_key:
  "title (h[b := (h ! b)\<lparr>ratings := rs\<rparr>] ! a) = title (h ! a) \<and>
   isbn (h[b := (h ! b)\<lparr>ratings := rs\<rparr>] ! a) = isbn (h ! a)"
proof (cases "b < length h")
  case True
  then show ?thesis by (cases "a = b") simp_all
next
  case False
  then have "h[b := (h ! b)\<lparr>ratings := rs\<rparr>] = h"
    by (simp add: list_update_beyond)
  then show ?thesis by simp
qed

lemma add_rating_keys:
  "book_eq (snd (add_rating h b r)) = book_eq h \<and> book_hash (snd (add_rating h b r)) = book_hash h"
proof -
  have "book_eq (h[b := (h ! b)\<lparr>ratings := rs\<rparr>]) = book_eq h \<and>
        book_hash (h[b := (h ! b)\<lparr>ratings := rs\<rparr>]) = book_hash h" for rs
    by (intro conjI ext) (simp_all add: book_eq_def book_hash_def store_update_ratings_key)
  then show ?thesis
    by (simp add: add_rating_def split: sum.splits option.splits)
qed

lemma read_book_keys:
  "book_eq (fst (snd (read_book h u book r))) = book_eq h \<and>
   book_hash (fst (snd (read_book h u book r))) = book_hash h"
proof (cases book)
  case NotABook
  then show ?thesis by (simp add: read_book_def)
next
  case (BookRef b)
  obtain res h1 where a: "add_rating h b r = (res, h1)" by (cases "add_rating h b r")
  then have "book_eq h1 = book_eq h \<and> book_hash h1 = book_hash h"
    using add_rating_keys [of h b r] by simp
  with a BookRef show ?thesis
    by (simp add: read_book_def Let_def split: sum.splits)
qed

lemma same_keys_matches:
  assumes "book_eq h' = book_eq h" and "book_hash h' = book_hash h"
  shows "entry_matches h' en k = entry_matches h en k"
  by (simp add: entry_matches_def assms)

lemma same_keys_get:
  assumes "book_eq h' = book_eq h" and "book_hash h' = book_hash h"
  shows "book_dict_get h' d k = book_dict_get h d k"
proof -
  note m = same_keys_matches [OF assms]
  show ?thesis by (induction d) (simp_all add: m)
qed

lemma same_keys_contains:
  assumes "book_eq h' = book_eq h" and "book_hash h' = book_hash h"
  shows "book_dict_contains h' d k = book_dict_contains h d k"
proof -
  note m = same_keys_matches [OF assms]
  show ?thesis by (induction d) (simp_all add: m)
qed

lemma same_keys_set:
  assumes "book_eq h' = book_eq h" and "book_hash h' = book_hash h"
  shows "book_dict_set h' d k v = book_dict_set h d k v"
proof -
  note m = same_keys_matches [OF assms]
  show ?thesis by (induction d) (simp_all add: m assms)
qed

lemmas same_keys_lookup = same_keys_get same_keys_contains same_keys_set

lemma dict_get_dict_set: "dict_get (=) (dict_set (=) d k v) k = Some v"
  by (induction d) auto

lemma dict_contains_get: "dict_contains eq d k \<longleftrightarrow> dict_get eq d k \<noteq> None"
  by (induction d) (auto split: if_splits)

lemma read_book_again_length:
  "book_dict_contains h (User.books u) b \<Longrightarrow>
     length (User.books (snd (snd (read_book h u (BookRef b) r)))) = length (User.books u)"
  by (cases "add_rating h b r")
    (simp add: read_book_def Let_def book_dict_set_length split: sum.splits)

lemma read_twice_run:
  "add_user [new_Book ''Dune'' 1001 20] new_TomeRater ''Alice'' ''a@b.co'' None =
     (Inr (), [new_Book ''Dune'' 1001 20],
      \<lparr>users = [(''a@b.co'', new_User ''Alice'' ''a@b.co'')], books = []\<rparr>)"
  "add_book_to_user [new_Book ''Dune'' 1001 20]
      \<lparr>users = [(''a@b.co'', new_User ''Alice'' ''a@b.co'')], books = []\<rparr> (BookRef 0) ''a@b.co'' None =
     (Inr (), [new_Book ''Dune'' 1001 20],
      \<lparr>users = [(''a@b.co'',
          \<lparr>name = ''Alice'', email = ''a@b.co'', books = [Entry (''Dune'', 1001) 0 None]\<rparr>)],
       books = [Entry (''Dune'', 1001) 0 1]\<rparr>)"
  "add_book_to_user [new_Book ''Dune'' 1001 20]
      \<lparr>users = [(''a@b.co'',
          \<lparr>name = ''Alice'', email = ''a@b.co'', books = [Entry (''Dune'', 1001) 0 None]\<rparr>)],
       books = [Entry (''Dune'', 1001) 0 1]\<rparr> (BookRef 0) ''a@b.co'' None =
     (Inr (), [new_Book ''Dune'' 1001 20],
      \<lparr>users = [(''a@b.co'',
          \<lparr>name = ''Alice'', email = ''a@b.co'', books = [Entry (''Dune'', 1001) 0 None]\<rparr>)],
       books = [Entry (''Dune'', 1001) 0 2]\<rparr>)"
  by (simp_all add: add_user_def is_existing_user_def valid_ab new_TomeRater_def new_User_def
      add_book_to_user_def read_book_def check_rating_is_valid_def truthy_def
      check_book_in_catalog_def book_eq_def book_hash_def entry_matches_def new_Book_def)

lemma read_after_set_isbn_run:
  "set_isbn [new_Book ''Dune'' 1001 20] 0 (IntVal 1002) = (Inr (), [new_Book ''Dune'' 1002 20])"
  "add_book_to_user [new_Book ''Dune'' 1002 20]
      \<lparr>users = [(''a@b.co'',
          \<lparr>name = ''Alice'', email = ''a@b.co'', books = [Entry (''Dune'', 1001) 0 None]\<rparr>)],
       books = [Entry (''Dune'', 1001) 0 1]\<rparr> (BookRef 0) ''a@b.co'' None =
     (Inr (), [new_Book ''Dune'' 1002 20],
      \<lparr>users = [(''a@b.co'',
          \<lparr>name = ''Alice'', email = ''a@b.co'',
           books = [Entry (''Dune'', 1001) 0 None, Entry (''Dune'', 1002) 0 None]\<rparr>)],
       books = [Entry (''Dune'', 1001) 0 1, Entry (''Dune'', 1002) 0 1]\<rparr>)"
  by (simp_all add: set_isbn_def is_existing_user_def valid_ab new_User_def
      add_book_to_user_def read_book_def check_rating_is_valid_def truthy_def
      check_book_in_catalog_def book_eq_def book_hash_def entry_matches_def new_Book_def)

text \<open>
  Claim C10 as stated fails when the isbn of \<^verbatim>\<open>b\<close> was reset after the user read
  it: the user's entry for \<^verbatim>\<open>b\<close> is stored under the old hash, the lookup of \<^verbatim>\<open>b\<close>
  does not find it, and a further \<^verbatim>\<open>add_book_to_user\<close> adds a second entry for the
  same object to the user's dictionary (two entries instead of one) and a second
  entry with count 1 to the catalog.
\<close>

theorem add_book_to_user_after_set_isbn_counterexample:
  "(case add_user [new_Book ''Dune'' 1001 20] new_TomeRater ''Alice'' ''a@b.co'' None of
      (r1, h1, t1) \<Rightarrow>
        (case add_book_to_user h1 t1 (BookRef 0) ''a@b.co'' None of
           (r2, h2, t2) \<Rightarrow>
             (case set_isbn h2 0 (IntVal 1002) of
                (r3, h3) \<Rightarrow>
                  (case add_book_to_user h3 t2 (BookRef 0) ''a@b.co'' None of
                     (r4, h4, t4) \<Rightarrow>
                       r1 = Inr () \<and> r2 = Inr () \<and> r3 = Inr () \<and> r4 = Inr () \<and>
                       map (\<lambda>p. get_books_collection (snd p)) (users t2) = [[0]] \<and>
                       book_dict_items (TomeRater.books t2) = [(0, 1)] \<and>
                       map (\<lambda>p. get_books_collection (snd p)) (users t4) = [[0, 0]] \<and>
                       book_dict_items (TomeRater.books t4) = [(0, 1), (0, 1)] \<and>
                       book_dict_get h4 (TomeRater.books t4) 0 = Some 1))))"
  unfolding read_twice_run prod.case read_after_set_isbn_run
  by (simp add: get_books_collection_def book_dict_keys_def book_dict_items_def
      entry_matches_def book_hash_def book_eq_def new_Book_def)

text \<open>
  Claim C10, amended. Let \<^verbatim>\<open>u\<close> be the user registered under \<^verbatim>\<open>e\<close>, and let the lookup
  of \<^verbatim>\<open>b\<close> in the user's dictionary find an entry (the user has read \<^verbatim>\<open>b\<close>, and the
  title and isbn of \<^verbatim>\<open>b\<close> are those under which the entry is stored). A call of
  \<^verbatim>\<open>add_book_to_user\<close> for \<^verbatim>\<open>b\<close> and \<^verbatim>\<open>e\<close> that returns normally leaves the number of
  entries of the user's dictionary unchanged, and the catalog count of \<^verbatim>\<open>b\<close> is one
  more than before (it is 1 if the catalog lookup found no entry for \<^verbatim>\<open>b\<close>). So the
  count is a number of read events: when one user is added and reads the same book
  twice, the count is 2 while one user has read the book.
\<close>

theorem add_book_to_user_read_again:
  "(dict_get (=) (users t) e = Some u \<and> book_dict_contains h (User.books u) b \<and>
    add_book_to_user h t (BookRef b) e rating = (Inr (), h', t') \<longrightarrow>
      (\<exists>u'. dict_get (=) (users t') e = Some u' \<and>
         length (User.books u') = length (User.books u)) \<and>
      book_dict_get h' (TomeRater.books t') b =
        Some (case book_dict_get h (TomeRater.books t) b of None \<Rightarrow> 1 | Some c \<Rightarrow> c + 1)) \<and>
   (case add_user [new_Book ''Dune'' 1001 20] new_TomeRater ''Alice'' ''a@b.co'' None of
      (r1, h1, t1) \<Rightarrow>
        (case add_book_to_user h1 t1 (BookRef 0) ''a@b.co'' None of
           (r2, h2, t2) \<Rightarrow>
             (case add_book_to_user h2 t2 (BookRef 0) ''a@b.co'' None of
                (r3, h3, t3) \<Rightarrow>
                  r1 = Inr () \<and> r2 = Inr () \<and> r3 = Inr () \<and>
                  book_dict_get h3 (TomeRater.books t3) 0 = Some 2 \<and>
                  length (filter (\<lambda>p. book_dict_contains h3 (User.books (snd p)) 0)
                            (users t3)) = 1)))"
proof -
  have general: "(\<exists>u'. dict_get (=) (users t') e = Some u' \<and>
         length (User.books u') = length (User.books u)) \<and>
      book_dict_get h' (TomeRater.books t') b =
        Some (case book_dict_get h (TomeRater.books t) b of None \<Rightarrow> 1 | Some c \<Rightarrow> c + 1)"
    if u: "dict_get (=) (users t) e = Some u"
      and rd: "book_dict_contains h (User.books u) b"
      and ok: "add_book_to_user h t (BookRef b) e rating = (Inr (), h', t')"
  proof -
    obtain res h1 u1 where rb: "read_book h u (BookRef b) rating = (res, h1, u1)"
      by (cases "read_book h u (BookRef b) rating")
    have ex: "is_existing_user t e = Inr True"
      using u ok by (auto simp: add_book_to_user_def is_existing_user_def dict_contains_get
          split: if_splits)
    have res: "res = Inr ()"
      using ok by (cases res) (simp_all add: add_book_to_user_def ex u rb)
    have keys: "book_eq h1 = book_eq h" "book_hash h1 = book_hash h"
      using read_book_keys [of h u "BookRef b" rating] rb by simp_all
    note same = same_keys_lookup [OF keys]
    have len: "length (User.books u1) = length (User.books u)"
      using read_book_again_length [OF rd, of rating] rb by simp
    let ?t1 = "t\<lparr>users := dict_set (=) (users t) e u1\<rparr>"
    show ?thesis
    proof (cases "book_dict_get h (TomeRater.books t) b")
      case None
      then have "\<not> book_dict_contains h (TomeRater.books t) b"
        by (simp add: book_dict_contains_get)
      then have st: "h' = h1"
        "t' = ?t1\<lparr>TomeRater.books := book_dict_set h (TomeRater.books t) b 1\<rparr>"
        using ok by (simp_all add: add_book_to_user_def ex u rb res same check_book_in_catalog_def)
      have "dict_get (=) (users t') e = Some u1"
        by (simp add: st dict_get_dict_set)
      moreover have "book_dict_get h' (TomeRater.books t') b = Some 1"
        by (simp add: st same book_dict_get_set)
      ultimately show ?thesis using len None by simp
    next
      case (Some c)
      then have "book_dict_contains h (TomeRater.books t) b"
        by (simp add: book_dict_contains_get)
      then have st: "h' = h1"
        "t' = ?t1\<lparr>TomeRater.books := book_dict_set h (TomeRater.books t) b (c + 1)\<rparr>"
        using ok Some
        by (simp_all add: add_book_to_user_def ex u rb res same check_book_in_catalog_def)
      have "dict_get (=) (users t') e = Some u1"
        by (simp add: st dict_get_dict_set)
      moreover have "book_dict_get h' (TomeRater.books t') b = Some (c + 1)"
        by (simp add: st same book_dict_get_set)
      ultimately show ?thesis using len Some by simp
    qed
  qed
  have run: "(case add_user [new_Book ''Dune'' 1001 20] new_TomeRater ''Alice'' ''a@b.co'' None of
      (r1, h1, t1) \<Rightarrow>
        (case add_book_to_user h1 t1 (BookRef 0) ''a@b.co'' None of
           (r2, h2, t2) \<Rightarrow>
             (case add_book_to_user h2 t2 (BookRef 0) ''a@b.co'' None of
                (r3, h3, t3) \<Rightarrow>
                  r1 = Inr () \<and> r2 = Inr () \<and> r3 = Inr () \<and>
                  book_dict_get h3 (TomeRater.books t3) 0 = Some 2 \<and>
                  length (filter (\<lambda>p. book_dict_contains h3 (User.books (snd p)) 0)
                            (users t3)) = 1)))"
    unfolding read_twice_run prod.case
    by (simp add: entry_matches_def book_hash_def book_eq_def new_Book_def)
  from general run show ?thesis by blast
qed

theorem add_book_to_user_read_again_witness:
  "dict_get (=)
     (users \<lparr>users = [(''a@b.co'',
          \<lparr>name = ''Alice'', email = ''a@b.co'', books = [Entry (''Dune'', 1001) 0 None]\<rparr>)],
       books = [Entry (''Dune'', 1001) 0 1]\<rparr>) ''a@b.co'' =
     Some \<lparr>name = ''Alice'', email = ''a@b.co'', books = [Entry (''Dune'', 1001) 0 None]\<rparr> \<and>
   book_dict_contains [new_Book ''Dune'' 1001 20]
     (User.books \<lparr>name = ''Alice'', email = ''a@b.co'', books = [Entry (''Dune'', 1001) 0 None]\<rparr>) 0 \<and>
   add_book_to_user [new_Book ''Dune'' 1001 20]
      \<lparr>users = [(''a@b.co'',
          \<lparr>name = ''Alice'', email = ''a@b.co'', books = [Entry (''Dune'', 1001) 0 None]\<rparr>)],
       books = [Entry (''Dune'', 1001) 0 1]\<rparr> (BookRef 0) ''a@b.co'' None =
     (Inr (), [new_Book ''Dune'' 1001 20],
      \<lparr>users = [(''a@b.co'',
          \<lparr>name = ''Alice'', email = ''a@b.co'', books = [Entry (''Dune'', 1001) 0 None]\<rparr>)],
       books = [Entry (''Dune'', 1001) 0 2]\<rparr>) \<and>
   book_dict_get [new_Book ''Dune'' 1001 20]
     (TomeRater.books \<lparr>users = [(''a@b.co'',
          \<lparr>name = ''Alice'', email = ''a@b.co'', books = [Entry (''Dune'', 1001) 0 None]\<rparr>)],
       books = [Entry (''Dune'', 1001) 0 2]\<rparr>) 0 = Some 2"
proof -
  let ?h = "[new_Book ''Dune'' 1001 20]"
  let ?u = "\<lparr>name = ''Alice'', email = ''a@b.co'', books = [Entry (''Dune'', 1001) 0 None]\<rparr>"
  let ?t = "\<lparr>users = [(''a@b.co'', ?u)], books = [Entry (''Dune'', 1001) 0 1]\<rparr>"
  let ?t' = "\<lparr>users = [(''a@b.co'', ?u)], books = [Entry (''Dune'', 1001) 0 2]\<rparr>"
  have 1: "dict_get (=) (users ?t) ''a@b.co'' = Some ?u" by simp
  have 2: "book_dict_contains ?h (User.books ?u) 0"
    by (simp add: entry_matches_def book_hash_def new_Book_def)
  have 3: "add_book_to_user ?h ?t (BookRef 0) ''a@b.co'' None = (Inr (), ?h, ?t')"
    by (rule read_twice_run(3))
  have 4: "book_dict_get ?h (TomeRater.books ?t) 0 = Some 1"
    by (simp add: entry_matches_def book_hash_def new_Book_def)
  show ?thesis
    using 1 2 3 4 add_book_to_user_read_again [of ?t "''a@b.co''" ?u ?h 0 None ?h ?t']
    by simp
qed

end
